theory Spec2Isabelle
  imports Complex_Main "HOL-Library.AList"
begin

section \<open>Values held by settings\<close>

text \<open>
  A setting's value is \<^verbatim>\<open>boolean | number | string\<close>; a stored entry may also be
  \<^verbatim>\<open>undefined\<close>, which the load loop tests for. Numbers are the finite doubles
  (taken as reals, rounding is not modelled) together with \<^verbatim>\<open>NaN\<close>, which is what
  \<^verbatim>\<open>parseFloat\<close> returns for an empty or non-numeric input string. Every comparison
  with \<^verbatim>\<open>NaN\<close> is false.
\<close>

datatype jsnum = NaN | Num real

fun js_lt :: "jsnum \<Rightarrow> jsnum \<Rightarrow> bool" where
  "js_lt (Num a) (Num b) = (a < b)"
| "js_lt _ _ = False"

fun js_gt :: "jsnum \<Rightarrow> jsnum \<Rightarrow> bool" where
  "js_gt (Num a) (Num b) = (a > b)"
| "js_gt _ _ = False"

datatype jsval = VBool bool | VNum jsnum | VStr string | VUndefined

text \<open>
  \<^verbatim>\<open>String(x)\<close> on a primitive. The digits JavaScript prints for a number are left to
  the parameter \<open>numStr\<close>.
\<close>

fun String_js :: "(jsnum \<Rightarrow> string) \<Rightarrow> jsval \<Rightarrow> string" where
  "String_js numStr (VStr s) = s"
| "String_js numStr (VBool b) = (if b then ''true'' else ''false'')"
| "String_js numStr (VNum n) = numStr n"
| "String_js numStr VUndefined = ''undefined''"

section \<open>Settings and plugins (pluginSettings.interface.ts)\<close>

datatype SettingsTypes = Checkbox | Range | Color | Text | Button | Combobox

text \<open>
  Callbacks are arbitrary plugin code. A setting holds the identity of its callback; what a
  callback does to the plugin objects is given by an interpretation \<open>exec\<close>, a parameter
  of every operation that calls one: \<open>exec f i ps\<close> is the plugin list after running
  callback \<open>f\<close> with the plugin at index \<open>i\<close> as receiver. Validators are predicates.
\<close>

type_synonym fn = string

text \<open>
  Field names follow the interface; \<open>text\<close>, \<open>type\<close>, \<open>value\<close>, \<open>min\<close>, \<open>max\<close> carry
  the suffix \<open>_s\<close>. The manager reads the combobox items from \<^verbatim>\<open>setting.options\<close>.
  \<open>proxies\<close> counts the reactive \<^verbatim>\<open>Proxy\<close> wrappers that
  \<^verbatim>\<open>makeSettingsReactive\<close> has put around the setting object.
\<close>

record PluginSettings =
  text_s :: string
  description :: "string option"
  type_s :: SettingsTypes
  value_s :: jsval
  callback :: fn
  validation :: "(jsval \<Rightarrow> bool) option"
  hidden :: "bool option"
  disabled :: "bool option"
  onLoaded :: "fn option"
  min_s :: "jsnum option"
  max_s :: "jsnum option"
  options :: "jsval list option"
  proxies :: nat

text \<open>
  \<^verbatim>\<open>plugin.settings\<close> is an object; its entries are kept in \<^verbatim>\<open>for ... in\<close> order as an
  association list.
\<close>

record Plugin =
  pluginName :: string
  author :: string
  settings :: "(string \<times> PluginSettings) list"

section \<open>The settings manager's state\<close>

type_synonym settingStore = "(string \<times> (string \<times> jsval) list) list"

datatype style = ErrorStyle | NormalStyle

text \<open>
  Effects that leave the manager are recorded as events: a callback invoked on a receiver,
  a \<^verbatim>\<open>database.put\<close>, a refresh pass over the rows of a plugin, and writes to the input
  surface.
\<close>

datatype event =
    EvCall fn nat
  | EvPut string settingStore
  | EvRefreshVisibility nat
  | EvRefreshDisabled nat
  | EvRestore string jsval
  | EvStyle string style
  | EvRowFadeOut string
  | EvRowDisplayNone string
  | EvRowDisplayFlex string
  | EvRowFadeIn string

datatype view = NoView | MainView | PluginView

datatype error = TypeError

text \<open>
  \<open>database\<close> is the \<^verbatim>\<open>settings\<close> object store, keyed by user name.
  \<open>mainSettingsView\<close> and \<open>pluginSettingsView\<close> hold the suffixes of the ids
  \<^verbatim>\<open>highlite-settings-content-row-<suffix>\<close> of the rows in each view; \<open>currentView\<close>
  says which view is attached to the panel. \<open>trace\<close> lists the events that have happened,
  \<open>deferred\<close> the ones queued behind an \<^verbatim>\<open>await\<close> or a \<^verbatim>\<open>setTimeout\<close>.
\<close>

record SettingsManager =
  pluginList :: "Plugin list"
  username :: string
  databaseSettings :: "settingStore option"
  database :: "string \<Rightarrow> settingStore option"
  mainSettingsView :: "string list option"
  pluginSettingsView :: "string list option"
  currentView :: view
  trace :: "event list"
  deferred :: "event list"

text \<open>
  The page runs one task at a time, so every operation below is a function from state to
  state. What the source does after an \<^verbatim>\<open>await\<close> or inside a \<^verbatim>\<open>setTimeout\<close> only
  restyles the rows; it is appended to \<open>deferred\<close> in the order in which it is queued. A
  plugin object is identified by its position in \<open>pluginList\<close>; callbacks change plugin
  objects only, not the store, the views or the registry array.
\<close>

definition emit :: "event list \<Rightarrow> SettingsManager \<Rightarrow> SettingsManager" where
  "emit evs st = st\<lparr>trace := trace st @ evs\<rparr>"

definition later :: "event list \<Rightarrow> SettingsManager \<Rightarrow> SettingsManager" where
  "later evs st = st\<lparr>deferred := deferred st @ evs\<rparr>"

definition getSetting :: "SettingsManager \<Rightarrow> nat \<Rightarrow> string \<Rightarrow> PluginSettings option" where
  "getSetting st i k =
     (if i < length (pluginList st) then map_of (settings (pluginList st ! i)) k else None)"

definition setSettingValue :: "string \<Rightarrow> jsval \<Rightarrow> Plugin \<Rightarrow> Plugin" where
  "setSettingValue k v p =
     p\<lparr>settings := AList.map_entry k (\<lambda>s. s\<lparr>value_s := v\<rparr>) (settings p)\<rparr>"

definition setValue :: "nat \<Rightarrow> string \<Rightarrow> jsval \<Rightarrow> SettingsManager \<Rightarrow> SettingsManager" where
  "setValue i k v st =
     st\<lparr>pluginList := (pluginList st)[i := setSettingValue k v (pluginList st ! i)]\<rparr>"

definition callFn ::
  "(fn \<Rightarrow> nat \<Rightarrow> Plugin list \<Rightarrow> Plugin list) \<Rightarrow> fn \<Rightarrow> nat \<Rightarrow> SettingsManager \<Rightarrow> SettingsManager" where
  "callFn exec f i st =
     st\<lparr>pluginList := exec f i (pluginList st), trace := trace st @ [EvCall f i]\<rparr>"

text \<open>\<^verbatim>\<open>pluginList.find(p => p.pluginName === name)\<close>, as the index of the first match.\<close>

fun findPlugin :: "Plugin list \<Rightarrow> string \<Rightarrow> nat option" where
  "findPlugin [] n = None"
| "findPlugin (p # ps) n =
     (if pluginName p = n then Some 0 else map_option Suc (findPlugin ps n))"

section \<open>storePluginSettings\<close>

definition snapshot :: "Plugin \<Rightarrow> (string \<times> jsval) list" where
  "snapshot p = map (\<lambda>(k, s). (k, value_s s)) (settings p)"

definition storePluginSettings :: "string \<Rightarrow> Plugin \<Rightarrow> SettingsManager \<Rightarrow> SettingsManager" where
  "storePluginSettings user plugin st =
     (let held = (case databaseSettings st of None \<Rightarrow> [] | Some r \<Rightarrow> r);
          written = AList.update (pluginName plugin) (snapshot plugin) held
      in st\<lparr>databaseSettings := Some written,
            database := (database st)(user \<mapsto> written),
            trace := trace st @ [EvPut user written]\<rparr>)"

text \<open>The persisted entry of plugin \<open>pn\<close> in the record of \<open>user\<close>.\<close>

definition persisted :: "SettingsManager \<Rightarrow> string \<Rightarrow> string \<Rightarrow> (string \<times> jsval) list option" where
  "persisted st user pn = (case database st user of None \<Rightarrow> None | Some r \<Rightarrow> map_of r pn)"

section \<open>Change handlers of the input surface\<close>

definition rejects :: "PluginSettings \<Rightarrow> jsval \<Rightarrow> bool" where
  "rejects s v = (case validation s of None \<Rightarrow> False | Some f \<Rightarrow> \<not> f v)"

text \<open>
  The three statements every accepting handler runs: assign the value, call the callback
  with the plugin as receiver, store the plugin's settings.
\<close>

definition applyAndSave ::
  "(fn \<Rightarrow> nat \<Rightarrow> Plugin list \<Rightarrow> Plugin list) \<Rightarrow> nat \<Rightarrow> string \<Rightarrow> jsval \<Rightarrow> SettingsManager \<Rightarrow> SettingsManager" where
  "applyAndSave exec i k v st =
     (case getSetting st i k of
        None \<Rightarrow> st
      | Some s \<Rightarrow>
          (let st1 = setValue i k v st;
               st2 = callFn exec (callback s) i st1
           in storePluginSettings (username st2) (pluginList st2 ! i) st2))"

definition checkboxChange ::
  "(fn \<Rightarrow> nat \<Rightarrow> Plugin list \<Rightarrow> Plugin list) \<Rightarrow> nat \<Rightarrow> string \<Rightarrow> bool \<Rightarrow> SettingsManager \<Rightarrow> SettingsManager" where
  "checkboxChange exec i k newValue st =
     (case getSetting st i k of
        None \<Rightarrow> st
      | Some s \<Rightarrow>
          if rejects s (VBool newValue)
          then emit [EvRestore k (value_s s), EvStyle k ErrorStyle] st
          else later [EvRefreshVisibility i, EvRefreshDisabled i, EvStyle k NormalStyle]
                 (applyAndSave exec i k (VBool newValue) st))"

text \<open>
  The number input: what \<^verbatim>\<open>parseFloat\<close> gives for its \<^verbatim>\<open>value\<close>, \<^verbatim>\<open>min\<close> and
  \<^verbatim>\<open>max\<close> strings. The view sets the \<^verbatim>\<open>min\<close> and \<^verbatim>\<open>max\<close> attributes only when the
  setting defines them; an attribute that was never set reads as the empty string, which
  parses to \<^verbatim>\<open>NaN\<close>.
\<close>

record numberInput =
  inValue :: jsnum
  inMin :: jsnum
  inMax :: jsnum

definition parseAttr :: "jsnum option \<Rightarrow> jsnum" where
  "parseAttr a = (case a of None \<Rightarrow> NaN | Some x \<Rightarrow> x)"

definition numberInputOf :: "PluginSettings \<Rightarrow> jsnum \<Rightarrow> numberInput" where
  "numberInputOf s entered =
     \<lparr>inValue = entered, inMin = parseAttr (min_s s), inMax = parseAttr (max_s s)\<rparr>"

definition outOfBounds :: "numberInput \<Rightarrow> bool" where
  "outOfBounds inp = (js_lt (inValue inp) (inMin inp) \<or> js_gt (inValue inp) (inMax inp))"

definition rangeChange ::
  "(fn \<Rightarrow> nat \<Rightarrow> Plugin list \<Rightarrow> Plugin list) \<Rightarrow> nat \<Rightarrow> string \<Rightarrow> numberInput \<Rightarrow> SettingsManager \<Rightarrow> SettingsManager" where
  "rangeChange exec i k inp st =
     (case getSetting st i k of
        None \<Rightarrow> st
      | Some s \<Rightarrow>
          if outOfBounds inp
          then emit [EvStyle k ErrorStyle] st
          else if rejects s (VNum (inValue inp))
          then emit [EvRestore k (value_s s), EvStyle k ErrorStyle] st
          else later [EvRefreshVisibility i, EvStyle k NormalStyle]
                 (applyAndSave exec i k (VNum (inValue inp)) st))"

definition colorChange ::
  "(fn \<Rightarrow> nat \<Rightarrow> Plugin list \<Rightarrow> Plugin list) \<Rightarrow> nat \<Rightarrow> string \<Rightarrow> string \<Rightarrow> SettingsManager \<Rightarrow> SettingsManager" where
  "colorChange exec i k newValue st =
     (case getSetting st i k of
        None \<Rightarrow> st
      | Some s \<Rightarrow>
          if rejects s (VStr newValue)
          then emit [EvRestore k (value_s s), EvStyle k ErrorStyle] st
          else later [EvRefreshVisibility i, EvStyle k NormalStyle]
                 (applyAndSave exec i k (VStr newValue) st))"

definition textChange ::
  "(fn \<Rightarrow> nat \<Rightarrow> Plugin list \<Rightarrow> Plugin list) \<Rightarrow> nat \<Rightarrow> string \<Rightarrow> string \<Rightarrow> SettingsManager \<Rightarrow> SettingsManager" where
  "textChange exec i k newValue st =
     (case getSetting st i k of
        None \<Rightarrow> st
      | Some s \<Rightarrow>
          if rejects s (VStr newValue)
          then emit [EvRestore k (value_s s), EvStyle k ErrorStyle] st
          else later [EvRefreshVisibility i, EvStyle k NormalStyle]
                 (applyAndSave exec i k (VStr newValue) st))"

definition buttonClick ::
  "(fn \<Rightarrow> nat \<Rightarrow> Plugin list \<Rightarrow> Plugin list) \<Rightarrow> nat \<Rightarrow> string \<Rightarrow> SettingsManager \<Rightarrow> SettingsManager" where
  "buttonClick exec i k st =
     (case getSetting st i k of
        None \<Rightarrow> st
      | Some s \<Rightarrow> emit [EvRefreshVisibility i, EvStyle k NormalStyle] (callFn exec (callback s) i st))"

definition comboChange ::
  "(fn \<Rightarrow> nat \<Rightarrow> Plugin list \<Rightarrow> Plugin list) \<Rightarrow> nat \<Rightarrow> string \<Rightarrow> string \<Rightarrow> SettingsManager \<Rightarrow> SettingsManager" where
  "comboChange exec i k newValue st =
     (case getSetting st i k of
        None \<Rightarrow> st
      | Some s \<Rightarrow> later [EvRefreshVisibility i] (applyAndSave exec i k (VStr newValue) st))"

text \<open>
  The toggle in the plugin's summary row. \<^verbatim>\<open>plugin.settings.enable\<close> is dereferenced
  without a check, so a plugin without that key makes the handler throw.
\<close>

definition enableChange ::
  "(fn \<Rightarrow> nat \<Rightarrow> Plugin list \<Rightarrow> Plugin list) \<Rightarrow> nat \<Rightarrow> bool \<Rightarrow> SettingsManager \<Rightarrow> error + SettingsManager" where
  "enableChange exec i checked st =
     (case getSetting st i ''enable'' of
        None \<Rightarrow> Inl TypeError
      | Some s \<Rightarrow> Inr (applyAndSave exec i ''enable'' (VBool checked) st))"

section \<open>registerPlugins\<close>

text \<open>
  One pass of the innermost loop body of the load phase, for the stored entry \<open>v\<close> under
  plugin name \<open>pn\<close> and setting key \<open>k\<close>.
\<close>

definition loadSetting ::
  "(fn \<Rightarrow> nat \<Rightarrow> Plugin list \<Rightarrow> Plugin list) \<Rightarrow> string \<Rightarrow> string \<Rightarrow> jsval \<Rightarrow> SettingsManager \<Rightarrow> SettingsManager" where
  "loadSetting exec pn k v st =
     (if v = VUndefined then st
      else case findPlugin (pluginList st) pn of
        None \<Rightarrow> st
      | Some i \<Rightarrow>
          (case map_of (settings (pluginList st ! i)) k of
             None \<Rightarrow> st
           | Some s \<Rightarrow>
               (let st1 = setValue i k v st
                in case onLoaded s of
                     None \<Rightarrow> st1
                   | Some f \<Rightarrow> callFn exec f i st1)))"

fun loadSettingData ::
  "(fn \<Rightarrow> nat \<Rightarrow> Plugin list \<Rightarrow> Plugin list) \<Rightarrow> string \<Rightarrow> (string \<times> jsval) list \<Rightarrow> SettingsManager \<Rightarrow> SettingsManager" where
  "loadSettingData exec pn [] st = st"
| "loadSettingData exec pn ((k, v) # kvs) st =
     loadSettingData exec pn kvs (loadSetting exec pn k v st)"

fun loadRecord ::
  "(fn \<Rightarrow> nat \<Rightarrow> Plugin list \<Rightarrow> Plugin list) \<Rightarrow> settingStore \<Rightarrow> SettingsManager \<Rightarrow> SettingsManager" where
  "loadRecord exec [] st = st"
| "loadRecord exec ((pn, pluginSettingData) # rest) st =
     loadRecord exec rest (loadSettingData exec pn pluginSettingData st)"

text \<open>The read of the user's record and the load phase: the state the write-back starts from.\<close>

definition loadPhase ::
  "(fn \<Rightarrow> nat \<Rightarrow> Plugin list \<Rightarrow> Plugin list) \<Rightarrow> SettingsManager \<Rightarrow> SettingsManager" where
  "loadPhase exec st =
     (let st1 = st\<lparr>databaseSettings := database st (username st)\<rparr>
      in case databaseSettings st1 of
           None \<Rightarrow> st1
         | Some r \<Rightarrow> loadRecord exec r st1)"

definition makeSettingsReactive :: "Plugin \<Rightarrow> Plugin" where
  "makeSettingsReactive plugin =
     plugin\<lparr>settings :=
       map (\<lambda>(k, s). if k = ''enable'' then (k, s) else (k, s\<lparr>proxies := Suc (proxies s)\<rparr>))
         (settings plugin)\<rparr>"

text \<open>
  createPluginSettings builds the plugin's row of the main view. It reads
  \<^verbatim>\<open>plugin.settings.enable.value\<close> and appends to \<^verbatim>\<open>this.mainSettingsView!\<close>, both
  without a check.
\<close>

definition createPluginSettings :: "Plugin \<Rightarrow> SettingsManager \<Rightarrow> error + SettingsManager" where
  "createPluginSettings plugin st =
     (case map_of (settings plugin) ''enable'' of
        None \<Rightarrow> Inl TypeError
      | Some e \<Rightarrow>
          (case mainSettingsView st of
             None \<Rightarrow> Inl TypeError
           | Some rows \<Rightarrow> Inr (st\<lparr>mainSettingsView := Some (rows @ [pluginName plugin])\<rparr>)))"

definition registerStep :: "nat \<Rightarrow> SettingsManager \<Rightarrow> error + SettingsManager" where
  "registerStep i st =
     (let st1 = storePluginSettings (username st) (pluginList st ! i) st;
          st2 = st1\<lparr>pluginList := (pluginList st1)[i := makeSettingsReactive (pluginList st1 ! i)]\<rparr>
      in createPluginSettings (pluginList st2 ! i) st2)"

fun registerLoop :: "nat list \<Rightarrow> SettingsManager \<Rightarrow> error + SettingsManager" where
  "registerLoop [] st = Inr st"
| "registerLoop (i # is) st =
     (case registerStep i st of Inl e \<Rightarrow> Inl e | Inr st' \<Rightarrow> registerLoop is st')"

definition registerPlugins ::
  "(fn \<Rightarrow> nat \<Rightarrow> Plugin list \<Rightarrow> Plugin list) \<Rightarrow> SettingsManager \<Rightarrow> error + SettingsManager" where
  "registerPlugins exec st =
     (let st2 = loadPhase exec st
      in registerLoop [0..<length (pluginList st2)] st2)"

section \<open>The detail view\<close>

text \<open>
  The combobox case of openPluginSettings. When the current value is not a string found in
  the options, the value is set to the first option and a \<^verbatim>\<open>change\<close> event is dispatched
  on the select, whose selected option is the first one, \<^verbatim>\<open>String(options[0])\<close>.
\<close>

definition needsNormalizing :: "jsval \<Rightarrow> jsval list \<Rightarrow> bool" where
  "needsNormalizing v opts = (case v of VStr x \<Rightarrow> VStr x \<notin> set opts | _ \<Rightarrow> True)"

definition comboboxRow ::
  "(jsnum \<Rightarrow> string) \<Rightarrow> (fn \<Rightarrow> nat \<Rightarrow> Plugin list \<Rightarrow> Plugin list) \<Rightarrow> nat \<Rightarrow> string \<Rightarrow> PluginSettings \<Rightarrow> SettingsManager \<Rightarrow> SettingsManager" where
  "comboboxRow numStr exec i k s st =
     (case options s of
        None \<Rightarrow> st
      | Some opts \<Rightarrow>
          (case opts of
             [] \<Rightarrow> st
           | first # _ \<Rightarrow>
               if needsNormalizing (value_s s) opts
               then comboChange exec i k (String_js numStr first) (setValue i k first st)
               else st))"

definition settingRow ::
  "(jsnum \<Rightarrow> string) \<Rightarrow> (fn \<Rightarrow> nat \<Rightarrow> Plugin list \<Rightarrow> Plugin list) \<Rightarrow> nat \<Rightarrow> string \<Rightarrow> SettingsManager \<Rightarrow> SettingsManager" where
  "settingRow numStr exec i k st =
     (if k = ''enable'' then st
      else case getSetting st i k of
        None \<Rightarrow> st
      | Some s \<Rightarrow>
          (let st1 = (case type_s s of Combobox \<Rightarrow> comboboxRow numStr exec i k s st | _ \<Rightarrow> st)
           in st1\<lparr>pluginSettingsView := Some ((case pluginSettingsView st1 of None \<Rightarrow> [] | Some rows \<Rightarrow> rows) @ [k])\<rparr>))"

definition openPluginSettings ::
  "(jsnum \<Rightarrow> string) \<Rightarrow> (fn \<Rightarrow> nat \<Rightarrow> Plugin list \<Rightarrow> Plugin list) \<Rightarrow> nat \<Rightarrow> SettingsManager \<Rightarrow> SettingsManager" where
  "openPluginSettings numStr exec i st =
     (let st0 = st\<lparr>pluginSettingsView := Some [], currentView := NoView\<rparr>;
          st1 = fold (settingRow numStr exec i) (map fst (settings (pluginList st ! i))) st0
      in st1\<lparr>currentView := PluginView\<rparr>)"

section \<open>toggleSettingVisibility, showSetting, hideSetting\<close>

text \<open>
  \<^verbatim>\<open>document.getElementById\<close> on a row id: the rows of the attached view, and the view
  itself, whose id is \<^verbatim>\<open>highlite-settings-content-row-holder\<close>.
\<close>

definition rowExists :: "SettingsManager \<Rightarrow> string \<Rightarrow> bool" where
  "rowExists st k =
     (case currentView st of
        NoView \<Rightarrow> False
      | MainView \<Rightarrow> (case mainSettingsView st of None \<Rightarrow> False | Some rows \<Rightarrow> k = ''holder'' \<or> k \<in> set rows)
      | PluginView \<Rightarrow> (case pluginSettingsView st of None \<Rightarrow> False | Some rows \<Rightarrow> k = ''holder'' \<or> k \<in> set rows))"

text \<open>
  The assignment \<^verbatim>\<open>setting.hidden = b\<close>. Each proxy around the setting queues a
  visibility refresh when the value changes.
\<close>

definition assignHidden :: "nat \<Rightarrow> string \<Rightarrow> bool \<Rightarrow> SettingsManager \<Rightarrow> SettingsManager" where
  "assignHidden i k b st =
     (case getSetting st i k of
        None \<Rightarrow> st
      | Some s \<Rightarrow>
          (let p = pluginList st ! i;
               st1 = st\<lparr>pluginList := (pluginList st)
                        [i := p\<lparr>settings := AList.map_entry k (\<lambda>s. s\<lparr>hidden := Some b\<rparr>) (settings p)\<rparr>]\<rparr>
           in if hidden s \<noteq> Some b
              then later (replicate (proxies s) (EvRefreshVisibility i)) st1
              else st1))"

definition toggleSettingVisibility ::
  "string \<Rightarrow> string \<Rightarrow> bool option \<Rightarrow> SettingsManager \<Rightarrow> SettingsManager" where
  "toggleSettingVisibility pn settingKey hiddenArg st =
     (if \<not> rowExists st settingKey then st
      else case findPlugin (pluginList st) pn of
        None \<Rightarrow> st
      | Some i \<Rightarrow>
          (case map_of (settings (pluginList st ! i)) settingKey of
             None \<Rightarrow> st
           | Some s \<Rightarrow>
               (let newHiddenState = (case hiddenArg of Some h \<Rightarrow> h | None \<Rightarrow> hidden s \<noteq> Some True);
                    st1 = assignHidden i settingKey newHiddenState st
                in if newHiddenState
                   then later [EvRowDisplayNone settingKey] (emit [EvRowFadeOut settingKey] st1)
                   else later [EvRowFadeIn settingKey] (emit [EvRowDisplayFlex settingKey] st1))))"

definition showSetting :: "string \<Rightarrow> string \<Rightarrow> SettingsManager \<Rightarrow> SettingsManager" where
  "showSetting pn settingKey st = toggleSettingVisibility pn settingKey (Some False) st"

definition hideSetting :: "string \<Rightarrow> string \<Rightarrow> SettingsManager \<Rightarrow> SettingsManager" where
  "hideSetting pn settingKey st = toggleSettingVisibility pn settingKey (Some True) st"

section \<open>What the load phase reads and writes\<close>

text \<open>
  The part of a plugin that the load and write-back phases depend on: its name and, for each
  setting in order, the key, the value and the \<^verbatim>\<open>onLoaded\<close> hook. A callback
  interpretation keeps this view when no callback renames a plugin, adds, removes or reorders
  settings, or changes a value or a hook; it may change anything else, such as the
  \<^verbatim>\<open>hidden\<close> and \<^verbatim>\<open>disabled\<close> flags.
\<close>

definition loadView :: "Plugin \<Rightarrow> string \<times> (string \<times> jsval \<times> fn option) list" where
  "loadView p = (pluginName p, map (\<lambda>(k, s). (k, value_s s, onLoaded s)) (settings p))"

definition keepsLoadView :: "(fn \<Rightarrow> nat \<Rightarrow> Plugin list \<Rightarrow> Plugin list) \<Rightarrow> bool" where
  "keepsLoadView exec = (\<forall>f i ps. map loadView (exec f i ps) = map loadView ps)"

text \<open>A stored record is an object of objects: no key occurs twice at either level.\<close>

definition objectKeys :: "settingStore \<Rightarrow> bool" where
  "objectKeys r = (distinct (map fst r) \<and> (\<forall>(pn, d) \<in> set r. distinct (map fst d)))"

definition heldRecord :: "SettingsManager \<Rightarrow> settingStore" where
  "heldRecord st = (case databaseSettings st of None \<Rightarrow> [] | Some r \<Rightarrow> r)"

text \<open>The value a stored entry under plugin name and key would be loaded into, if any.\<close>

definition valueAt :: "Plugin list \<Rightarrow> string \<Rightarrow> string \<Rightarrow> jsval option" where
  "valueAt ps pn k =
     (case findPlugin ps pn of
        None \<Rightarrow> None
      | Some i \<Rightarrow> map_option value_s (map_of (settings (ps ! i)) k))"

text \<open>A plugin's name and its setting keys in order.\<close>

definition settingKeys :: "Plugin \<Rightarrow> string \<times> string list" where
  "settingKeys p = (pluginName p, map fst (settings p))"

text \<open>The stored entries in the order in which the two load loops visit them.\<close>

definition entries :: "settingStore \<Rightarrow> (string \<times> string \<times> jsval) list" where
  "entries r = concat (map (\<lambda>(pn, d). map (\<lambda>(k, v). (pn, k, v)) d) r)"

text \<open>
  The \<^verbatim>\<open>onLoaded\<close> hooks of the settings of a list of plugins, and a callback
  interpretation cut down to the callbacks of a list: every other callback does nothing.
\<close>

definition loadHooks :: "Plugin list \<Rightarrow> fn list" where
  "loadHooks ps =
     concat (map (\<lambda>p. concat (map (\<lambda>(k, s). case onLoaded s of None \<Rightarrow> [] | Some f \<Rightarrow> [f])
                                 (settings p))) ps)"

definition onlyHooks ::
  "fn list \<Rightarrow> (fn \<Rightarrow> nat \<Rightarrow> Plugin list \<Rightarrow> Plugin list) \<Rightarrow> fn \<Rightarrow> nat \<Rightarrow> Plugin list \<Rightarrow> Plugin list" where
  "onlyHooks H exec f i ps = (if f \<in> set H then exec f i ps else ps)"

section \<open>Sample data\<close>

text \<open>
  A plugin in the style of the repository's Nameplates plugin, a second plugin, and a
  manager state after \<^verbatim>\<open>init\<close>, used to evaluate the operations on concrete inputs.
\<close>

definition noopSetting :: PluginSettings where
  "noopSetting =
     \<lparr>text_s = ''Enable'', description = None, type_s = Checkbox, value_s = VBool True,
      callback = ''noop'', validation = None, hidden = None, disabled = None,
      onLoaded = None, min_s = None, max_s = None, options = None, proxies = 0\<rparr>"

definition modeSetting :: PluginSettings where
  "modeSetting =
     noopSetting\<lparr>text_s := ''Mode'', type_s := Combobox, value_s := VStr ''z'',
       callback := ''modeChanged'', onLoaded := Some ''modeLoaded'',
       validation := Some (\<lambda>v. v = VStr ''a''),
       options := Some [VStr ''a'', VStr ''b'']\<rparr>"

definition lockedEnable :: PluginSettings where
  "lockedEnable = noopSetting\<lparr>callback := ''toggled'', validation := Some (\<lambda>v. v = VBool True)\<rparr>"

definition nameplates :: Plugin where
  "nameplates =
     \<lparr>pluginName = ''Nameplates'', author = ''Highlite'',
      settings =
        [(''enable'', noopSetting),
         (''playerNameplates'', noopSetting\<lparr>text_s := ''Player Nameplates'',
            validation := Some (\<lambda>v. v = VBool True)\<rparr>),
         (''size'', noopSetting\<lparr>text_s := ''Size'', type_s := Range, value_s := VNum (Num 5),
            callback := ''resize'', min_s := Some (Num 0), max_s := Some (Num 10)\<rparr>),
         (''offset'', noopSetting\<lparr>text_s := ''Offset'', type_s := Range, value_s := VNum (Num 1)\<rparr>),
         (''label'', noopSetting\<lparr>text_s := ''Label'', type_s := Text, value_s := VStr ''hp'',
            validation := Some (\<lambda>v. v \<noteq> VStr [])\<rparr>),
         (''tint'', noopSetting\<lparr>text_s := ''Tint'', type_s := Color, value_s := VStr ''#ff0000'',
            validation := Some (\<lambda>v. v \<noteq> VStr ''#000000'')\<rparr>),
         (''mode'', modeSetting)]\<rparr>"

definition idleAlert :: Plugin where
  "idleAlert =
     \<lparr>pluginName = ''IdleAlert'', author = ''Highlite'',
      settings =
        [(''enable'', lockedEnable),
         (''volume'', noopSetting\<lparr>text_s := ''Volume'', type_s := Range, value_s := VNum (Num 50)\<rparr>)]\<rparr>"

definition noEffect :: "fn \<Rightarrow> nat \<Rightarrow> Plugin list \<Rightarrow> Plugin list" where
  "noEffect f i ps = ps"

definition freshManager :: SettingsManager where
  "freshManager =
     \<lparr>pluginList = [nameplates, idleAlert], username = ''player'',
      databaseSettings = None, database = (\<lambda>u. None),
      mainSettingsView = Some [], pluginSettingsView = None, currentView = MainView,
      trace = [], deferred = []\<rparr>"

definition storedManager :: SettingsManager where
  "storedManager = storePluginSettings ''player'' idleAlert freshManager"

text \<open>The same manager for a user whose record holds a changed size and mode, an undefined
  label, a key that no longer exists and the entry of a plugin that is no longer registered.\<close>

definition returningManager :: SettingsManager where
  "returningManager =
     freshManager\<lparr>database := (\<lambda>u. None)(''player'' \<mapsto>
       [(''Nameplates'',
          [(''size'', VNum (Num 7)), (''mode'', VStr ''b''), (''label'', VUndefined),
           (''retired'', VBool False)]),
        (''Removed'', [(''enable'', VBool False)])])\<rparr>"

text \<open>
  A state whose held record is older than the user's stored record: since the record was read,
  the store has gained the entry of IdleAlert.
\<close>

definition staleManager :: SettingsManager where
  "staleManager =
     freshManager\<lparr>databaseSettings := Some [(''Nameplates'', [(''enable'', VBool True)])],
       database := (\<lambda>u. None)(''player'' \<mapsto>
         [(''Nameplates'', [(''enable'', VBool True)]),
          (''IdleAlert'', [(''enable'', VBool False), (''volume'', VNum (Num 20))])])\<rparr>"

text \<open>
  A plugin whose \<^verbatim>\<open>onLoaded\<close> hook counts how often its setting has been loaded, by
  adding one to the value just loaded; a manager that registers it for a user whose record
  holds a count, a key that the plugin does not have and the entry of a plugin that is not
  registered; and that manager after one and after two runs of registerPlugins.
\<close>

definition counter :: Plugin where
  "counter =
     \<lparr>pluginName = ''Counter'', author = ''Highlite'',
      settings =
        [(''enable'', noopSetting),
         (''count'', noopSetting\<lparr>text_s := ''Count'', type_s := Range, value_s := VNum (Num 0),
            onLoaded := Some ''counted''\<rparr>)]\<rparr>"

definition bump :: "Plugin \<Rightarrow> Plugin" where
  "bump p =
     (case map_option value_s (map_of (settings p) ''count'') of
        Some (VNum (Num x)) \<Rightarrow> setSettingValue ''count'' (VNum (Num (x + 1))) p
      | _ \<Rightarrow> p)"

definition countingExec :: "fn \<Rightarrow> nat \<Rightarrow> Plugin list \<Rightarrow> Plugin list" where
  "countingExec f i ps = (if f = ''counted'' then ps[i := bump (ps ! i)] else ps)"

definition countingManager :: SettingsManager where
  "countingManager =
     freshManager\<lparr>pluginList := [counter],
       database := (\<lambda>u. None)(''player'' \<mapsto>
         [(''Counter'', [(''count'', VNum (Num 1)), (''gone'', VBool True)]),
          (''Removed'', [(''enable'', VBool False)])])\<rparr>"

definition countedOnce :: SettingsManager where
  "countedOnce =
     countingManager\<lparr>
       pluginList := [makeSettingsReactive (setSettingValue ''count'' (VNum (Num 2)) counter)],
       databaseSettings :=
         Some [(''Counter'', [(''enable'', VBool True), (''count'', VNum (Num 2))]),
               (''Removed'', [(''enable'', VBool False)])],
       database := (\<lambda>u. None)(''player'' \<mapsto>
         [(''Counter'', [(''enable'', VBool True), (''count'', VNum (Num 2))]),
          (''Removed'', [(''enable'', VBool False)])]),
       mainSettingsView := Some [''Counter''],
       trace := [EvCall ''counted'' 0,
                 EvPut ''player'' [(''Counter'', [(''enable'', VBool True), (''count'', VNum (Num 2))]),
                                   (''Removed'', [(''enable'', VBool False)])]]\<rparr>"

definition countedTwice :: SettingsManager where
  "countedTwice =
     countedOnce\<lparr>
       pluginList := [makeSettingsReactive (makeSettingsReactive
                        (setSettingValue ''count'' (VNum (Num 3)) counter))],
       databaseSettings :=
         Some [(''Counter'', [(''enable'', VBool True), (''count'', VNum (Num 3))]),
               (''Removed'', [(''enable'', VBool False)])],
       database := (\<lambda>u. None)(''player'' \<mapsto>
         [(''Counter'', [(''enable'', VBool True), (''count'', VNum (Num 3))]),
          (''Removed'', [(''enable'', VBool False)])]),
       mainSettingsView := Some [''Counter'', ''Counter''],
       trace := trace countedOnce @
                [EvCall ''counted'' 0,
                 EvPut ''player'' [(''Counter'', [(''enable'', VBool True), (''count'', VNum (Num 3))]),
                                   (''Removed'', [(''enable'', VBool False)])]]\<rparr>"

text \<open>
  A callback interpretation under which the hook does nothing and the change callback
  \<open>noop\<close> adds one to the count; the manager after one and after two runs of
  registerPlugins under it.
\<close>

definition bumpOnChange :: "fn \<Rightarrow> nat \<Rightarrow> Plugin list \<Rightarrow> Plugin list" where
  "bumpOnChange f i ps = (if f = ''noop'' then ps[i := bump (ps ! i)] else ps)"

definition loadedOnce :: SettingsManager where
  "loadedOnce =
     countingManager\<lparr>
       pluginList := [makeSettingsReactive (setSettingValue ''count'' (VNum (Num 1)) counter)],
       databaseSettings :=
         Some [(''Counter'', [(''enable'', VBool True), (''count'', VNum (Num 1))]),
               (''Removed'', [(''enable'', VBool False)])],
       database := (\<lambda>u. None)(''player'' \<mapsto>
         [(''Counter'', [(''enable'', VBool True), (''count'', VNum (Num 1))]),
          (''Removed'', [(''enable'', VBool False)])]),
       mainSettingsView := Some [''Counter''],
       trace := [EvCall ''counted'' 0,
                 EvPut ''player'' [(''Counter'', [(''enable'', VBool True), (''count'', VNum (Num 1))]),
                                   (''Removed'', [(''enable'', VBool False)])]]\<rparr>"

definition loadedTwice :: SettingsManager where
  "loadedTwice =
     loadedOnce\<lparr>
       pluginList := [makeSettingsReactive (makeSettingsReactive
                        (setSettingValue ''count'' (VNum (Num 1)) counter))],
       mainSettingsView := Some [''Counter'', ''Counter''],
       trace := trace loadedOnce @
                [EvCall ''counted'' 0,
                 EvPut ''player'' [(''Counter'', [(''enable'', VBool True), (''count'', VNum (Num 1))]),
                                   (''Removed'', [(''enable'', VBool False)])]]\<rparr>"

section \<open>Accepted and rejected writes\<close>

lemma applyAndSave_effect:
  assumes "getSetting st i k = Some s"
  shows "applyAndSave exec i k v st =
     (let ps' = exec (callback s) i ((pluginList st)[i := setSettingValue k v (pluginList st ! i)]);
          written = AList.update (pluginName (ps' ! i)) (snapshot (ps' ! i))
                      (case databaseSettings st of None \<Rightarrow> [] | Some r \<Rightarrow> r)
      in st\<lparr>pluginList := ps',
            databaseSettings := Some written,
            database := (database st)(username st \<mapsto> written),
            trace := trace st @ [EvCall (callback s) i, EvPut (username st) written]\<rparr>)"
  using assms
  by (simp add: applyAndSave_def setValue_def callFn_def storePluginSettings_def Let_def)

text \<open>
  C1 (as amended). For a setting shown as a checkbox, number, colour or text input: when the
  setting has a validator and the validator rejects the candidate read from the input, the
  handler returns having written only to the input surface (the shown value is put back and
  the control is marked as invalid; a number that is also out of bounds is only marked). The
  plugin list, the held record, the store and the queue of deferred work are untouched: no
  value is assigned, no callback is called and nothing is put.
\<close>

theorem rejected_write_is_noop:
  assumes "getSetting st i k = Some s"
      and "validation s = Some ok"
  shows "(\<not> ok (VBool b) \<longrightarrow>
            checkboxChange exec i k b st
              = st\<lparr>trace := trace st @ [EvRestore k (value_s s), EvStyle k ErrorStyle]\<rparr>)
       \<and> (\<not> ok (VNum (inValue inp)) \<longrightarrow>
            rangeChange exec i k inp st
              = st\<lparr>trace := trace st @
                     (if outOfBounds inp then [EvStyle k ErrorStyle]
                      else [EvRestore k (value_s s), EvStyle k ErrorStyle])\<rparr>)
       \<and> (\<not> ok (VStr x) \<longrightarrow>
            colorChange exec i k x st
              = st\<lparr>trace := trace st @ [EvRestore k (value_s s), EvStyle k ErrorStyle]\<rparr>)
       \<and> (\<not> ok (VStr x) \<longrightarrow>
            textChange exec i k x st
              = st\<lparr>trace := trace st @ [EvRestore k (value_s s), EvStyle k ErrorStyle]\<rparr>)"
  using assms
  by (simp add: checkboxChange_def rangeChange_def colorChange_def textChange_def
        rejects_def emit_def)

theorem rejected_write_is_noop_witness:
  "getSetting freshManager 0 ''playerNameplates''
     = Some (noopSetting\<lparr>text_s := ''Player Nameplates'',
               validation := Some (\<lambda>v. v = VBool True)\<rparr>)
   \<and> checkboxChange noEffect 0 ''playerNameplates'' False freshManager
       = freshManager\<lparr>trace := [EvRestore ''playerNameplates'' (VBool True),
                                 EvStyle ''playerNameplates'' ErrorStyle]\<rparr>
   \<and> rangeChange noEffect 0 ''playerNameplates'' \<lparr>inValue = NaN, inMin = NaN, inMax = NaN\<rparr> freshManager
       = freshManager\<lparr>trace := [EvRestore ''playerNameplates'' (VBool True),
                                 EvStyle ''playerNameplates'' ErrorStyle]\<rparr>
   \<and> colorChange noEffect 0 ''playerNameplates'' [] freshManager
       = freshManager\<lparr>trace := [EvRestore ''playerNameplates'' (VBool True),
                                 EvStyle ''playerNameplates'' ErrorStyle]\<rparr>
   \<and> textChange noEffect 0 ''playerNameplates'' [] freshManager
       = freshManager\<lparr>trace := [EvRestore ''playerNameplates'' (VBool True),
                                 EvStyle ''playerNameplates'' ErrorStyle]\<rparr>"
proof -
  let ?s = "noopSetting\<lparr>text_s := ''Player Nameplates'',
               validation := Some (\<lambda>v. v = VBool True)\<rparr>"
  have g: "getSetting freshManager 0 ''playerNameplates'' = Some ?s"
    by (simp add: getSetting_def freshManager_def nameplates_def modeSetting_def)
  have v: "validation ?s = Some (\<lambda>v. v = VBool True)"
    by simp
  have t: "trace freshManager = []"
    by (simp add: freshManager_def)
  have o: "\<not> outOfBounds \<lparr>inValue = NaN, inMin = NaN, inMax = NaN\<rparr>"
    by (simp add: outOfBounds_def)
  have e: "value_s ?s = VBool True"
    by (simp add: noopSetting_def)
  show ?thesis
    using g t o e
      rejected_write_is_noop [OF g v, of False noEffect "\<lparr>inValue = NaN, inMin = NaN, inMax = NaN\<rparr>" "[]"]
    by simp
qed

text \<open>
  C1 as stated covers every setting with a validator. Two handlers never consult it: the
  \<open>enable\<close> toggle and the combobox. On the sample state the validator of IdleAlert's
  \<open>enable\<close> rejects \<open>false\<close> and the validator of \<open>mode\<close> rejects \<open>b\<close>; both
  writes are applied, the callback is called and the record is put.
\<close>

theorem validator_not_consulted:
  "getSetting freshManager 1 ''enable'' = Some lockedEnable
   \<and> rejects lockedEnable (VBool False)
   \<and> \<not> isl (enableChange noEffect 1 False freshManager)
   \<and> map_option value_s
       (getSetting (projr (enableChange noEffect 1 False freshManager)) 1 ''enable'')
       = Some (VBool False)
   \<and> trace (projr (enableChange noEffect 1 False freshManager))
       = [EvCall ''toggled'' 1,
          EvPut ''player'' [(''IdleAlert'', [(''enable'', VBool False), (''volume'', VNum (Num 50))])]]
   \<and> getSetting freshManager 0 ''mode'' = Some modeSetting
   \<and> rejects modeSetting (VStr ''b'')
   \<and> map_option value_s (getSetting (comboChange noEffect 0 ''mode'' ''b'' freshManager) 0 ''mode'')
       = Some (VStr ''b'')
   \<and> trace (comboChange noEffect 0 ''mode'' ''b'' freshManager)
       = [EvCall ''modeChanged'' 0,
          EvPut ''player''
            [(''Nameplates'',
              [(''enable'', VBool True), (''playerNameplates'', VBool True),
               (''size'', VNum (Num 5)), (''offset'', VNum (Num 1)), (''label'', VStr ''hp''),
               (''tint'', VStr ''#ff0000''), (''mode'', VStr ''b'')])]]"
  by (simp add: freshManager_def getSetting_def idleAlert_def lockedEnable_def nameplates_def modeSetting_def noopSetting_def
        rejects_def enableChange_def comboChange_def applyAndSave_def setValue_def callFn_def
        storePluginSettings_def later_def noEffect_def setSettingValue_def snapshot_def Let_def)

text \<open>
  C7. The \<open>enable\<close> toggle assigns the value, calls the \<open>enable\<close> setting's callback
  with the plugin as receiver and puts the plugin's snapshot, whatever the setting's validator
  says; it queues no refresh. makeSettingsReactive leaves the \<open>enable\<close> entry as it is.
\<close>

theorem enable_toggle:
  assumes "getSetting st i ''enable'' = Some s"
  shows "enableChange exec i checked st =
     (let ps' = exec (callback s) i
                  ((pluginList st)[i := setSettingValue ''enable'' (VBool checked) (pluginList st ! i)]);
          written = AList.update (pluginName (ps' ! i)) (snapshot (ps' ! i))
                      (case databaseSettings st of None \<Rightarrow> [] | Some r \<Rightarrow> r)
      in Inr (st\<lparr>pluginList := ps',
            databaseSettings := Some written,
            database := (database st)(username st \<mapsto> written),
            trace := trace st @ [EvCall (callback s) i, EvPut (username st) written]\<rparr>))
    \<and> map_of (settings (makeSettingsReactive p)) ''enable'' = map_of (settings p) ''enable''"
proof -
  have "map_of (map (\<lambda>(k, s). if k = ''enable'' then (k, s) else (k, s\<lparr>proxies := Suc (proxies s)\<rparr>)) xs) ''enable''
        = map_of xs ''enable''" for xs :: "(string \<times> PluginSettings) list"
    by (induction xs) auto
  then show ?thesis
    using assms by (simp add: enableChange_def applyAndSave_effect Let_def makeSettingsReactive_def)
qed

theorem enable_toggle_witness:
  "getSetting freshManager 1 ''enable''
     = Some (noopSetting\<lparr>callback := ''toggled'', validation := Some (\<lambda>v. v = VBool True)\<rparr>)
   \<and> enableChange noEffect 1 False freshManager =
       Inr (freshManager
         \<lparr>pluginList := [nameplates, setSettingValue ''enable'' (VBool False) idleAlert],
          databaseSettings :=
            Some [(''IdleAlert'', [(''enable'', VBool False), (''volume'', VNum (Num 50))])],
          database := (\<lambda>u. None)(''player'' \<mapsto>
            [(''IdleAlert'', [(''enable'', VBool False), (''volume'', VNum (Num 50))])]),
          trace := [EvCall ''toggled'' 1,
            EvPut ''player'' [(''IdleAlert'', [(''enable'', VBool False), (''volume'', VNum (Num 50))])]]\<rparr>)
   \<and> map_option proxies (map_of (settings (makeSettingsReactive idleAlert)) ''enable'') = Some 0
   \<and> map_option proxies (map_of (settings (makeSettingsReactive idleAlert)) ''volume'') = Some 1"
proof -
  let ?s = "noopSetting\<lparr>callback := ''toggled'', validation := Some (\<lambda>v. v = VBool True)\<rparr>"
  have g: "getSetting freshManager 1 ''enable'' = Some ?s"
    by (simp add: getSetting_def freshManager_def idleAlert_def lockedEnable_def)
  have p: "map_option proxies (map_of (settings idleAlert) ''enable'') = Some 0"
    by (simp add: idleAlert_def lockedEnable_def noopSetting_def)
  have q: "map_option proxies (map_of (settings (makeSettingsReactive idleAlert)) ''volume'') = Some 1"
    by (simp add: idleAlert_def lockedEnable_def noopSetting_def makeSettingsReactive_def)
  have w: "snapshot (setSettingValue ''enable'' (VBool False) idleAlert)
             = [(''enable'', VBool False), (''volume'', VNum (Num 50))]"
    by (simp add: snapshot_def setSettingValue_def idleAlert_def lockedEnable_def noopSetting_def)
  have n: "pluginName (setSettingValue ''enable'' (VBool False) idleAlert) = ''IdleAlert''"
    by (simp add: setSettingValue_def idleAlert_def lockedEnable_def)
  have f: "pluginList freshManager = [nameplates, idleAlert]" "databaseSettings freshManager = None"
    "database freshManager = (\<lambda>u. None)" "username freshManager = ''player''" "trace freshManager = []"
    by (simp_all add: freshManager_def)
  show ?thesis
    using g p q enable_toggle [OF g, of noEffect False idleAlert]
    by (simp add: Let_def noEffect_def w n f)
qed

section \<open>The number input\<close>

text \<open>
  C5. For a number input built from a setting with \<open>min = 0\<close> and \<open>max = 10\<close>: an entered
  number from 0 to 10, both included, that the validator (if any) does not reject is assigned
  to the setting, the callback is called with the plugin as receiver, and the record put is the
  held record in which the plugin's entry is every setting key of the plugin with its value
  after the callback; that entry is then the plugin's persisted entry. A number below 0 or
  above 10 leaves everything unchanged but the error style of the input: no value is assigned,
  no callback is called and nothing is put.
\<close>

theorem range_boundary:
  assumes "getSetting st i k = Some s"
      and "min_s s = Some (Num 0)"
      and "max_s s = Some (Num 10)"
  shows "(0 \<le> c \<and> c \<le> 10 \<and> \<not> rejects s (VNum (Num c)) \<longrightarrow>
            (let ps' = exec (callback s) i
                         ((pluginList st)[i := setSettingValue k (VNum (Num c)) (pluginList st ! i)]);
                 entry = map (\<lambda>(key, setting). (key, value_s setting)) (settings (ps' ! i));
                 written = AList.update (pluginName (ps' ! i)) entry
                             (case databaseSettings st of None \<Rightarrow> [] | Some r \<Rightarrow> r)
             in rangeChange exec i k (numberInputOf s (Num c)) st =
                  st\<lparr>pluginList := ps',
                     databaseSettings := Some written,
                     database := (database st)(username st \<mapsto> written),
                     trace := trace st @ [EvCall (callback s) i, EvPut (username st) written],
                     deferred := deferred st @ [EvRefreshVisibility i, EvStyle k NormalStyle]\<rparr>
                \<and> persisted (rangeChange exec i k (numberInputOf s (Num c)) st) (username st)
                      (pluginName (ps' ! i)) = Some entry
                \<and> map_option value_s
                      (map_of (settings ((pluginList st)[i := setSettingValue k (VNum (Num c)) (pluginList st ! i)] ! i)) k)
                    = Some (VNum (Num c))))
       \<and> (c < 0 \<or> 10 < c \<longrightarrow>
            rangeChange exec i k (numberInputOf s (Num c)) st
              = st\<lparr>trace := trace st @ [EvStyle k ErrorStyle]\<rparr>)"
proof -
  have i: "i < length (pluginList st)" and m: "map_of (settings (pluginList st ! i)) k = Some s"
    using assms(1) by (simp_all add: getSetting_def split: if_splits)
  have v: "map_option value_s
             (map_of (settings ((pluginList st)[i := setSettingValue k (VNum (Num c)) (pluginList st ! i)] ! i)) k)
           = Some (VNum (Num c))"
    using i m by (simp add: setSettingValue_def AList.map_of_map_entry)
  show ?thesis
    using assms v
    by (auto simp: rangeChange_def outOfBounds_def numberInputOf_def parseAttr_def
        applyAndSave_effect later_def emit_def Let_def persisted_def snapshot_def AList.update_conv')
qed

theorem range_boundary_witness:
  "getSetting freshManager 0 ''size''
     = Some (noopSetting\<lparr>text_s := ''Size'', type_s := Range, value_s := VNum (Num 5),
              callback := ''resize'', min_s := Some (Num 0), max_s := Some (Num 10)\<rparr>)
   \<and> map_option value_s (getSetting (rangeChange noEffect 0 ''size''
        (numberInputOf (the (getSetting freshManager 0 ''size'')) (Num 0)) freshManager) 0 ''size'')
       = Some (VNum (Num 0))
   \<and> trace (rangeChange noEffect 0 ''size''
        (numberInputOf (the (getSetting freshManager 0 ''size'')) (Num 0)) freshManager)
       = [EvCall ''resize'' 0,
          EvPut ''player''
            [(''Nameplates'',
              [(''enable'', VBool True), (''playerNameplates'', VBool True),
               (''size'', VNum (Num 0)), (''offset'', VNum (Num 1)), (''label'', VStr ''hp''),
               (''tint'', VStr ''#ff0000''), (''mode'', VStr ''z'')])]]
   \<and> persisted (rangeChange noEffect 0 ''size''
        (numberInputOf (the (getSetting freshManager 0 ''size'')) (Num 0)) freshManager)
        ''player'' ''Nameplates''
       = Some [(''enable'', VBool True), (''playerNameplates'', VBool True),
               (''size'', VNum (Num 0)), (''offset'', VNum (Num 1)), (''label'', VStr ''hp''),
               (''tint'', VStr ''#ff0000''), (''mode'', VStr ''z'')]
   \<and> map_option value_s (getSetting (rangeChange noEffect 0 ''size''
        (numberInputOf (the (getSetting freshManager 0 ''size'')) (Num 10)) freshManager) 0 ''size'')
       = Some (VNum (Num 10))
   \<and> trace (rangeChange noEffect 0 ''size''
        (numberInputOf (the (getSetting freshManager 0 ''size'')) (Num 10)) freshManager)
       = [EvCall ''resize'' 0,
          EvPut ''player''
            [(''Nameplates'',
              [(''enable'', VBool True), (''playerNameplates'', VBool True),
               (''size'', VNum (Num 10)), (''offset'', VNum (Num 1)), (''label'', VStr ''hp''),
               (''tint'', VStr ''#ff0000''), (''mode'', VStr ''z'')])]]
   \<and> persisted (rangeChange noEffect 0 ''size''
        (numberInputOf (the (getSetting freshManager 0 ''size'')) (Num 10)) freshManager)
        ''player'' ''Nameplates''
       = Some [(''enable'', VBool True), (''playerNameplates'', VBool True),
               (''size'', VNum (Num 10)), (''offset'', VNum (Num 1)), (''label'', VStr ''hp''),
               (''tint'', VStr ''#ff0000''), (''mode'', VStr ''z'')]
   \<and> rangeChange noEffect 0 ''size''
        (numberInputOf (the (getSetting freshManager 0 ''size'')) (Num (- 1))) freshManager
       = freshManager\<lparr>trace := [EvStyle ''size'' ErrorStyle]\<rparr>
   \<and> rangeChange noEffect 0 ''size''
        (numberInputOf (the (getSetting freshManager 0 ''size'')) (Num 11)) freshManager
       = freshManager\<lparr>trace := [EvStyle ''size'' ErrorStyle]\<rparr>"
proof -
  let ?s = "noopSetting\<lparr>text_s := ''Size'', type_s := Range, value_s := VNum (Num 5),
              callback := ''resize'', min_s := Some (Num 0), max_s := Some (Num 10)\<rparr>"
  have g: "getSetting freshManager 0 ''size'' = Some ?s"
    by (simp add: getSetting_def freshManager_def nameplates_def modeSetting_def)
  have mn: "min_s ?s = Some (Num 0)" and mx: "max_s ?s = Some (Num 10)"
    by simp_all
  have r: "\<not> rejects ?s v" for v
    by (simp add: rejects_def noopSetting_def)
  have f: "pluginList freshManager = [nameplates, idleAlert]" "databaseSettings freshManager = None"
    "database freshManager = (\<lambda>u. None)" "username freshManager = ''player''" "trace freshManager = []"
    by (simp_all add: freshManager_def)
  have w: "map (\<lambda>(key, setting). (key, value_s setting)) (settings (setSettingValue ''size'' v nameplates))
             = [(''enable'', VBool True), (''playerNameplates'', VBool True),
               (''size'', v), (''offset'', VNum (Num 1)), (''label'', VStr ''hp''),
               (''tint'', VStr ''#ff0000''), (''mode'', VStr ''z'')]" for v
    by (simp add: setSettingValue_def nameplates_def modeSetting_def noopSetting_def)
  have n: "pluginName (setSettingValue ''size'' v nameplates) = ''Nameplates''" for v
    by (simp add: setSettingValue_def nameplates_def)
  have q: "map_option value_s (map_of (settings (setSettingValue ''size'' v nameplates)) ''size'') = Some v" for v
    by (simp add: setSettingValue_def nameplates_def)
  note b = range_boundary [OF g mn mx, of _ noEffect]
  have a0: "rangeChange noEffect 0 ''size'' (numberInputOf ?s (Num 0)) freshManager
      = freshManager\<lparr>pluginList := [setSettingValue ''size'' (VNum (Num 0)) nameplates, idleAlert],
           databaseSettings := Some [(''Nameplates'', [(''enable'', VBool True), (''playerNameplates'', VBool True),
               (''size'', VNum (Num 0)), (''offset'', VNum (Num 1)), (''label'', VStr ''hp''),
               (''tint'', VStr ''#ff0000''), (''mode'', VStr ''z'')])],
           database := (\<lambda>u. None)(''player'' \<mapsto> [(''Nameplates'', [(''enable'', VBool True), (''playerNameplates'', VBool True),
               (''size'', VNum (Num 0)), (''offset'', VNum (Num 1)), (''label'', VStr ''hp''),
               (''tint'', VStr ''#ff0000''), (''mode'', VStr ''z'')])]),
           trace := [EvCall ''resize'' 0, EvPut ''player'' [(''Nameplates'', [(''enable'', VBool True), (''playerNameplates'', VBool True),
               (''size'', VNum (Num 0)), (''offset'', VNum (Num 1)), (''label'', VStr ''hp''),
               (''tint'', VStr ''#ff0000''), (''mode'', VStr ''z'')])]],
           deferred := deferred freshManager @ [EvRefreshVisibility 0, EvStyle ''size'' NormalStyle]\<rparr>"
    using b [of 0] r by (simp add: Let_def noEffect_def f w n)
  have a10: "rangeChange noEffect 0 ''size'' (numberInputOf ?s (Num 10)) freshManager
      = freshManager\<lparr>pluginList := [setSettingValue ''size'' (VNum (Num 10)) nameplates, idleAlert],
           databaseSettings := Some [(''Nameplates'', [(''enable'', VBool True), (''playerNameplates'', VBool True),
               (''size'', VNum (Num 10)), (''offset'', VNum (Num 1)), (''label'', VStr ''hp''),
               (''tint'', VStr ''#ff0000''), (''mode'', VStr ''z'')])],
           database := (\<lambda>u. None)(''player'' \<mapsto> [(''Nameplates'', [(''enable'', VBool True), (''playerNameplates'', VBool True),
               (''size'', VNum (Num 10)), (''offset'', VNum (Num 1)), (''label'', VStr ''hp''),
               (''tint'', VStr ''#ff0000''), (''mode'', VStr ''z'')])]),
           trace := [EvCall ''resize'' 0, EvPut ''player'' [(''Nameplates'', [(''enable'', VBool True), (''playerNameplates'', VBool True),
               (''size'', VNum (Num 10)), (''offset'', VNum (Num 1)), (''label'', VStr ''hp''),
               (''tint'', VStr ''#ff0000''), (''mode'', VStr ''z'')])]],
           deferred := deferred freshManager @ [EvRefreshVisibility 0, EvStyle ''size'' NormalStyle]\<rparr>"
    using b [of 10] r by (simp add: Let_def noEffect_def f w n)
  have lo: "rangeChange noEffect 0 ''size'' (numberInputOf ?s (Num (- 1))) freshManager
       = freshManager\<lparr>trace := [EvStyle ''size'' ErrorStyle]\<rparr>"
    using b [of "- 1"] by (simp add: f)
  have hi: "rangeChange noEffect 0 ''size'' (numberInputOf ?s (Num 11)) freshManager
       = freshManager\<lparr>trace := [EvStyle ''size'' ErrorStyle]\<rparr>"
    using b [of 11] by (simp add: f)
  have t: "the (getSetting freshManager 0 ''size'') = ?s"
    using g by simp
  have v0: "map_option value_s (getSetting (rangeChange noEffect 0 ''size''
        (numberInputOf ?s (Num 0)) freshManager) 0 ''size'') = Some (VNum (Num 0))"
    by (simp add: a0 getSetting_def q)
  have t0: "trace (rangeChange noEffect 0 ''size'' (numberInputOf ?s (Num 0)) freshManager)
       = [EvCall ''resize'' 0,
          EvPut ''player''
            [(''Nameplates'',
              [(''enable'', VBool True), (''playerNameplates'', VBool True),
               (''size'', VNum (Num 0)), (''offset'', VNum (Num 1)), (''label'', VStr ''hp''),
               (''tint'', VStr ''#ff0000''), (''mode'', VStr ''z'')])]]"
    by (simp add: a0)
  have p0: "persisted (rangeChange noEffect 0 ''size'' (numberInputOf ?s (Num 0)) freshManager)
        ''player'' ''Nameplates''
       = Some [(''enable'', VBool True), (''playerNameplates'', VBool True),
               (''size'', VNum (Num 0)), (''offset'', VNum (Num 1)), (''label'', VStr ''hp''),
               (''tint'', VStr ''#ff0000''), (''mode'', VStr ''z'')]"
    by (simp add: a0 persisted_def)
  have v10: "map_option value_s (getSetting (rangeChange noEffect 0 ''size''
        (numberInputOf ?s (Num 10)) freshManager) 0 ''size'') = Some (VNum (Num 10))"
    by (simp add: a10 getSetting_def q)
  have t10: "trace (rangeChange noEffect 0 ''size'' (numberInputOf ?s (Num 10)) freshManager)
       = [EvCall ''resize'' 0,
          EvPut ''player''
            [(''Nameplates'',
              [(''enable'', VBool True), (''playerNameplates'', VBool True),
               (''size'', VNum (Num 10)), (''offset'', VNum (Num 1)), (''label'', VStr ''hp''),
               (''tint'', VStr ''#ff0000''), (''mode'', VStr ''z'')])]]"
    by (simp add: a10)
  have p10: "persisted (rangeChange noEffect 0 ''size'' (numberInputOf ?s (Num 10)) freshManager)
        ''player'' ''Nameplates''
       = Some [(''enable'', VBool True), (''playerNameplates'', VBool True),
               (''size'', VNum (Num 10)), (''offset'', VNum (Num 1)), (''label'', VStr ''hp''),
               (''tint'', VStr ''#ff0000''), (''mode'', VStr ''z'')]"
    by (simp add: a10 persisted_def)
  show ?thesis
    unfolding t by (intro conjI g v0 t0 p0 v10 t10 p10 lo hi)
qed

text \<open>
  C10. The bounds check rejects exactly an entered number that is strictly below a numeric
  \<open>min\<close> or strictly above a numeric \<open>max\<close>. With neither declared both attributes
  parse to \<^verbatim>\<open>NaN\<close> and nothing is out of bounds; with no validator either, an entered
  \<^verbatim>\<open>NaN\<close> is assigned as the value, the callback is called and the snapshot is put.
\<close>

theorem range_without_bounds:
  shows "(outOfBounds (numberInputOf s c) \<longleftrightarrow>
            (\<exists>x m. c = Num x \<and> ((min_s s = Some (Num m) \<and> x < m) \<or> (max_s s = Some (Num m) \<and> m < x))))
       \<and> (min_s s = None \<and> max_s s = None \<longrightarrow>
            inMin (numberInputOf s c) = NaN \<and> inMax (numberInputOf s c) = NaN
            \<and> \<not> outOfBounds (numberInputOf s c))
       \<and> (getSetting st i k = Some s \<and> min_s s = None \<and> max_s s = None \<and> validation s = None \<longrightarrow>
            rangeChange exec i k (numberInputOf s NaN) st =
              (let ps' = exec (callback s) i
                           ((pluginList st)[i := setSettingValue k (VNum NaN) (pluginList st ! i)]);
                   written = AList.update (pluginName (ps' ! i)) (snapshot (ps' ! i))
                               (case databaseSettings st of None \<Rightarrow> [] | Some r \<Rightarrow> r)
               in st\<lparr>pluginList := ps',
                     databaseSettings := Some written,
                     database := (database st)(username st \<mapsto> written),
                     trace := trace st @ [EvCall (callback s) i, EvPut (username st) written],
                     deferred := deferred st @ [EvRefreshVisibility i, EvStyle k NormalStyle]\<rparr>))"
proof -
  have a: "outOfBounds (numberInputOf s c) \<longleftrightarrow>
            (\<exists>x m. c = Num x \<and> ((min_s s = Some (Num m) \<and> x < m) \<or> (max_s s = Some (Num m) \<and> m < x)))"
  proof (cases c)
    case NaN
    then show ?thesis by (simp add: outOfBounds_def numberInputOf_def)
  next
    case (Num x)
    have l: "js_lt (Num x) (parseAttr (min_s s)) \<longleftrightarrow> (\<exists>m. min_s s = Some (Num m) \<and> x < m)"
      by (cases "min_s s"; cases "parseAttr (min_s s)") (auto simp: parseAttr_def)
    have g: "js_gt (Num x) (parseAttr (max_s s)) \<longleftrightarrow> (\<exists>m. max_s s = Some (Num m) \<and> m < x)"
      by (cases "max_s s"; cases "parseAttr (max_s s)") (auto simp: parseAttr_def)
    show ?thesis
      using Num l g by (auto simp: outOfBounds_def numberInputOf_def)
  qed
  have b: "min_s s = None \<and> max_s s = None \<longrightarrow>
            inMin (numberInputOf s c) = NaN \<and> inMax (numberInputOf s c) = NaN
            \<and> \<not> outOfBounds (numberInputOf s c)"
    by (cases c) (auto simp: outOfBounds_def numberInputOf_def parseAttr_def)
  show ?thesis
    apply (intro conjI a b)
    apply (auto simp: rangeChange_def outOfBounds_def numberInputOf_def parseAttr_def rejects_def
        applyAndSave_effect later_def emit_def Let_def)
    done
qed

theorem range_without_bounds_witness:
  "getSetting freshManager 0 ''offset''
     = Some (noopSetting\<lparr>text_s := ''Offset'', type_s := Range, value_s := VNum (Num 1)\<rparr>)
   \<and> \<not> outOfBounds (numberInputOf (noopSetting\<lparr>text_s := ''Offset'', type_s := Range,
          value_s := VNum (Num 1)\<rparr>) NaN)
   \<and> \<not> outOfBounds (numberInputOf (noopSetting\<lparr>text_s := ''Offset'', type_s := Range,
          value_s := VNum (Num 1)\<rparr>) (Num (- 1000)))
   \<and> map_option value_s
        (getSetting (rangeChange noEffect 0 ''offset''
           (numberInputOf (noopSetting\<lparr>text_s := ''Offset'', type_s := Range,
              value_s := VNum (Num 1)\<rparr>) NaN) freshManager) 0 ''offset'')
       = Some (VNum NaN)
   \<and> map_of (snapshot nameplates) ''offset'' = Some (VNum (Num 1))
   \<and> map_option (\<lambda>r. map_option (\<lambda>e. map_of e ''offset'') (map_of r ''Nameplates''))
        (database (rangeChange noEffect 0 ''offset''
           (numberInputOf (noopSetting\<lparr>text_s := ''Offset'', type_s := Range,
              value_s := VNum (Num 1)\<rparr>) NaN) freshManager) ''player'')
       = Some (Some (Some (VNum NaN)))"
proof -
  let ?s = "noopSetting\<lparr>text_s := ''Offset'', type_s := Range, value_s := VNum (Num 1)\<rparr>"
  have g: "getSetting freshManager 0 ''offset'' = Some ?s"
    by (simp add: getSetting_def freshManager_def nameplates_def modeSetting_def)
  have h: "min_s ?s = None" "max_s ?s = None" "validation ?s = None"
    by (simp_all add: noopSetting_def)
  have f: "pluginList freshManager = [nameplates, idleAlert]" "databaseSettings freshManager = None"
    "database freshManager = (\<lambda>u. None)" "username freshManager = ''player''" "trace freshManager = []"
    by (simp_all add: freshManager_def)
  have w: "map_of (snapshot (setSettingValue ''offset'' (VNum NaN) nameplates)) ''offset''
             = Some (VNum NaN)"
    by (simp add: snapshot_def setSettingValue_def nameplates_def modeSetting_def)
  have v: "map_option value_s (map_of (settings (setSettingValue ''offset'' (VNum NaN) nameplates)) ''offset'')
             = Some (VNum NaN)"
    by (simp add: setSettingValue_def nameplates_def modeSetting_def)
  have n: "pluginName (setSettingValue ''offset'' (VNum NaN) nameplates) = ''Nameplates''"
    by (simp add: setSettingValue_def nameplates_def modeSetting_def)
  have o: "map_of (snapshot nameplates) ''offset'' = Some (VNum (Num 1))"
    by (simp add: snapshot_def nameplates_def modeSetting_def)
  note r = range_without_bounds [of ?s _ freshManager 0 "''offset''" noEffect]
  show ?thesis
    using g h r [of NaN] r [of "Num (- 1000)"]
    by (simp add: Let_def noEffect_def f w v n o getSetting_def)
qed

section \<open>The combobox row\<close>

lemma map_entry_twice:
  "AList.map_entry k f (AList.map_entry k g xs) = AList.map_entry k (f \<circ> g) xs"
  by (induction xs) auto

lemma setSettingValue_twice:
  "setSettingValue k v (setSettingValue k w p) = setSettingValue k v p"
proof -
  have "(\<lambda>s::PluginSettings. s\<lparr>value_s := v\<rparr>) \<circ> (\<lambda>s. s\<lparr>value_s := w\<rparr>) = (\<lambda>s. s\<lparr>value_s := v\<rparr>)"
    by (rule ext) simp
  then show ?thesis
    by (simp add: setSettingValue_def map_entry_twice)
qed




section \<open>Storing one plugin\<close>

text \<open>
  storePluginSettings never reads the store: it replaces one entry of the record held in
  memory and puts that record. The held record is the user's stored record as read by the
  last registerPlugins and changed by the stores since; the store itself may hold something
  else by then, written from elsewhere.
\<close>

text \<open>
  C2 (as amended). Storing plugin \<open>a\<close> for a user puts the record held in memory with the
  entry under \<open>a\<close>'s name replaced by every setting key of \<open>a\<close> with its value. For every
  other plugin name the user's stored entry afterwards is the entry of the held record, so it
  is exactly the stored entry from before whenever the held record is the user's stored
  record. The records of other users are left alone.
\<close>

theorem store_merges_held_record:
  assumes "b \<noteq> pluginName a"
  shows "persisted (storePluginSettings user a st) user b = map_of (heldRecord st) b
       \<and> persisted (storePluginSettings user a st) user (pluginName a)
           = Some (map (\<lambda>(key, setting). (key, value_s setting)) (settings a))
       \<and> (databaseSettings st = database st user \<longrightarrow>
             persisted (storePluginSettings user a st) user b = persisted st user b)
       \<and> (\<forall>u. u \<noteq> user \<longrightarrow> database (storePluginSettings user a st) u = database st u)"
  using assms
  by (auto simp: persisted_def storePluginSettings_def Let_def AList.update_conv' heldRecord_def
        snapshot_def split: option.splits)

theorem store_merges_held_record_witness:
  "''IdleAlert'' \<noteq> pluginName nameplates
   \<and> databaseSettings storedManager = database storedManager ''player''
   \<and> persisted storedManager ''player'' ''IdleAlert''
        = Some [(''enable'', VBool True), (''volume'', VNum (Num 50))]
   \<and> persisted (storePluginSettings ''player'' nameplates storedManager) ''player'' ''IdleAlert''
        = Some [(''enable'', VBool True), (''volume'', VNum (Num 50))]
   \<and> persisted (storePluginSettings ''player'' nameplates storedManager) ''player'' ''Nameplates''
        = Some [(''enable'', VBool True), (''playerNameplates'', VBool True),
               (''size'', VNum (Num 5)), (''offset'', VNum (Num 1)), (''label'', VStr ''hp''),
               (''tint'', VStr ''#ff0000''), (''mode'', VStr ''z'')]
   \<and> map_of (heldRecord staleManager) ''IdleAlert'' = None
   \<and> persisted (storePluginSettings ''player'' nameplates staleManager) ''player'' ''IdleAlert'' = None"
proof -
  have s: "databaseSettings storedManager = database storedManager ''player''"
    by (simp add: storedManager_def storePluginSettings_def freshManager_def Let_def)
  have n: "''IdleAlert'' \<noteq> pluginName nameplates"
    by (simp add: nameplates_def)
  have p: "persisted storedManager ''player'' ''IdleAlert''
        = Some [(''enable'', VBool True), (''volume'', VNum (Num 50))]"
    by (simp add: persisted_def storedManager_def storePluginSettings_def freshManager_def Let_def
          idleAlert_def lockedEnable_def snapshot_def noopSetting_def)
  have w: "map (\<lambda>(key, setting). (key, value_s setting)) (settings nameplates)
        = [(''enable'', VBool True), (''playerNameplates'', VBool True),
               (''size'', VNum (Num 5)), (''offset'', VNum (Num 1)), (''label'', VStr ''hp''),
               (''tint'', VStr ''#ff0000''), (''mode'', VStr ''z'')]"
    by (simp add: nameplates_def modeSetting_def noopSetting_def)
  have m: "pluginName nameplates = ''Nameplates''"
    by (simp add: nameplates_def)
  have h: "map_of (heldRecord staleManager) ''IdleAlert'' = None"
    by (simp add: heldRecord_def staleManager_def)
  note fresh = store_merges_held_record [OF n, of "''player''" storedManager]
  note stale = store_merges_held_record [OF n, of "''player''" staleManager]
  have a: "persisted (storePluginSettings ''player'' nameplates storedManager) ''player'' ''IdleAlert''
        = Some [(''enable'', VBool True), (''volume'', VNum (Num 50))]"
  proof -
    from fresh have "databaseSettings storedManager = database storedManager ''player'' \<longrightarrow>
        persisted (storePluginSettings ''player'' nameplates storedManager) ''player'' ''IdleAlert''
          = persisted storedManager ''player'' ''IdleAlert''"
      by blast
    with s p show ?thesis by simp
  qed
  have b: "persisted (storePluginSettings ''player'' nameplates storedManager) ''player'' ''Nameplates''
        = Some [(''enable'', VBool True), (''playerNameplates'', VBool True),
               (''size'', VNum (Num 5)), (''offset'', VNum (Num 1)), (''label'', VStr ''hp''),
               (''tint'', VStr ''#ff0000''), (''mode'', VStr ''z'')]"
  proof -
    from fresh have "persisted (storePluginSettings ''player'' nameplates storedManager) ''player''
        (pluginName nameplates) = Some (map (\<lambda>(key, setting). (key, value_s setting)) (settings nameplates))"
      by blast
    then show ?thesis by (simp add: w m)
  qed
  have c: "persisted (storePluginSettings ''player'' nameplates staleManager) ''player'' ''IdleAlert'' = None"
  proof -
    from stale have "persisted (storePluginSettings ''player'' nameplates staleManager) ''player'' ''IdleAlert''
        = map_of (heldRecord staleManager) ''IdleAlert''"
      by blast
    with h show ?thesis by simp
  qed
  show ?thesis
    by (intro conjI n s p a b h c)
qed

text \<open>
  C2 as stated covers every state of the manager. In a state whose held record lacks
  IdleAlert's entry while the store has it, storing Nameplates puts the held record and
  IdleAlert's stored entry is gone.
\<close>

theorem store_from_stale_copy:
  "username staleManager = ''player''
   \<and> pluginName nameplates = ''Nameplates''
   \<and> persisted staleManager ''player'' ''IdleAlert''
        = Some [(''enable'', VBool False), (''volume'', VNum (Num 20))]
   \<and> persisted (storePluginSettings ''player'' nameplates staleManager) ''player'' ''IdleAlert'' = None"
  by (simp add: staleManager_def freshManager_def persisted_def storePluginSettings_def Let_def
        nameplates_def)

section \<open>Visibility of a setting\<close>

text \<open>
  C9. toggleSettingVisibility, showSetting and hideSetting return the state unchanged when no
  row with the setting's id is rendered, when no registered plugin has the given name, or
  when the plugin found has no setting under the key.
\<close>

theorem toggleSettingVisibility_frame:
  assumes "\<not> rowExists st settingKey
         \<or> findPlugin (pluginList st) pn = None
         \<or> (\<exists>i. findPlugin (pluginList st) pn = Some i
                \<and> map_of (settings (pluginList st ! i)) settingKey = None)"
  shows "toggleSettingVisibility pn settingKey h st = st
       \<and> showSetting pn settingKey st = st
       \<and> hideSetting pn settingKey st = st"
  using assms
  by (auto simp: toggleSettingVisibility_def showSetting_def hideSetting_def)

theorem toggleSettingVisibility_frame_witness:
  "\<not> rowExists freshManager ''size''
   \<and> toggleSettingVisibility ''Nameplates'' ''size'' None freshManager = freshManager
   \<and> showSetting ''Nameplates'' ''size'' freshManager = freshManager
   \<and> hideSetting ''Nameplates'' ''size'' freshManager = freshManager"
proof -
  have h: "\<not> rowExists freshManager ''size''"
    by (simp add: rowExists_def freshManager_def)
  then have "\<not> rowExists freshManager ''size''
         \<or> findPlugin (pluginList freshManager) ''Nameplates'' = None
         \<or> (\<exists>i. findPlugin (pluginList freshManager) ''Nameplates'' = Some i
                \<and> map_of (settings (pluginList freshManager ! i)) ''size'' = None)"
    by simp
  from toggleSettingVisibility_frame [OF this] h show ?thesis
    by simp
qed

text \<open>With the row rendered and the setting found, hideSetting does set the flag.\<close>

lemma hideSetting_rendered:
  "map_option hidden
     (getSetting (hideSetting ''Nameplates'' ''size''
        (freshManager\<lparr>pluginSettingsView := Some [''size''], currentView := PluginView\<rparr>)) 0 ''size'')
     = Some (Some True)"
  by (simp add: hideSetting_def toggleSettingVisibility_def rowExists_def assignHidden_def
        later_def emit_def getSetting_def freshManager_def nameplates_def modeSetting_def Let_def)

section \<open>The write-back of registerPlugins\<close>

lemma makeSettingsReactive_loadView: "loadView (makeSettingsReactive p) = loadView p"
proof -
  have "map (\<lambda>(k, s). (k, value_s s, onLoaded s))
          (map (\<lambda>(k, s). if k = ''enable'' then (k, s) else (k, s\<lparr>proxies := Suc (proxies s)\<rparr>)) xs)
        = map (\<lambda>(k, s). (k, value_s s, onLoaded s)) xs" for xs :: "(string \<times> PluginSettings) list"
    by (induction xs) auto
  then show ?thesis
    by (simp add: loadView_def makeSettingsReactive_def)
qed

lemma loadView_name: "loadView p = loadView q \<Longrightarrow> pluginName p = pluginName q"
  by (simp add: loadView_def)

lemma loadView_snapshot: "loadView p = loadView q \<Longrightarrow> snapshot p = snapshot q"
proof -
  assume "loadView p = loadView q"
  then have "map (\<lambda>(k, s). (k, value_s s, onLoaded s)) (settings p)
           = map (\<lambda>(k, s). (k, value_s s, onLoaded s)) (settings q)"
    by (simp add: loadView_def)
  then have "map (\<lambda>(k, v, h). (k, v)) (map (\<lambda>(k, s). (k, value_s s, onLoaded s)) (settings p))
           = map (\<lambda>(k, v, h). (k, v)) (map (\<lambda>(k, s). (k, value_s s, onLoaded s)) (settings q))"
    by simp
  then show ?thesis
    by (simp add: snapshot_def comp_def case_prod_unfold)
qed

lemma loadView_keys: "loadView p = loadView q \<Longrightarrow> map fst (settings p) = map fst (settings q)"
proof -
  assume "loadView p = loadView q"
  then have "map fst (map (\<lambda>(k, s). (k, value_s s, onLoaded s)) (settings p))
           = map fst (map (\<lambda>(k, s). (k, value_s s, onLoaded s)) (settings q))"
    by (simp add: loadView_def)
  then show ?thesis
    by (simp add: comp_def case_prod_unfold)
qed

lemma loadView_has:
  assumes "loadView p = loadView q"
  shows "map_of (settings p) k = None \<longleftrightarrow> map_of (settings q) k = None"
proof -
  have "set (map fst (settings p)) = set (map fst (settings q))"
    using loadView_keys [OF assms] by (rule arg_cong)
  then have "fst ` set (settings p) = fst ` set (settings q)"
    by (simp only: set_map)
  then show ?thesis
    by (simp only: map_of_eq_None_iff)
qed

lemma views_length: "map loadView ps' = map loadView ps \<Longrightarrow> length ps' = length ps"
  by (rule map_eq_imp_length_eq)

lemma views_nth:
  "map loadView ps' = map loadView ps \<Longrightarrow> i < length ps \<Longrightarrow> loadView (ps' ! i) = loadView (ps ! i)"
  by (metis length_map nth_map)

lemma views_all_has:
  assumes "map loadView ps' = map loadView ps"
      and "\<forall>p \<in> set ps. map_of (settings p) k \<noteq> None"
  shows "\<forall>p \<in> set ps'. map_of (settings p) k \<noteq> None"
proof
  fix p assume "p \<in> set ps'"
  then obtain i where i: "i < length ps'" "p = ps' ! i"
    by (auto simp: in_set_conv_nth)
  have "i < length ps"
    using i(1) views_length [OF assms(1)] by simp
  moreover have "loadView p = loadView (ps ! i)"
    using views_nth [OF assms(1) \<open>i < length ps\<close>] i(2) by simp
  moreover have "map_of (settings (ps ! i)) k \<noteq> None"
    using assms(2) \<open>i < length ps\<close> by simp
  ultimately show "map_of (settings p) k \<noteq> None"
    using loadView_has [of p "ps ! i" k] by simp
qed

lemma registerStep_ok:
  assumes "i < length (pluginList st)"
      and "map_of (settings (pluginList st ! i)) ''enable'' \<noteq> None"
      and "mainSettingsView st = Some rows"
  shows "registerStep i st =
     (let written = AList.update (pluginName (pluginList st ! i)) (snapshot (pluginList st ! i)) (heldRecord st)
      in Inr (st\<lparr>pluginList := (pluginList st)[i := makeSettingsReactive (pluginList st ! i)],
                 databaseSettings := Some written,
                 database := (database st)(username st \<mapsto> written),
                 trace := trace st @ [EvPut (username st) written],
                 mainSettingsView := Some (rows @ [pluginName (pluginList st ! i)])\<rparr>))"
proof -
  have e: "map_of (settings (makeSettingsReactive (pluginList st ! i))) ''enable'' \<noteq> None"
    using assms(2) loadView_has [OF makeSettingsReactive_loadView] by simp
  have n: "pluginName (makeSettingsReactive p) = pluginName p" for p
    by (simp add: makeSettingsReactive_def)
  show ?thesis
    using assms(1,3) e
    by (auto simp: registerStep_def storePluginSettings_def createPluginSettings_def Let_def
          heldRecord_def n split: option.splits)
qed

lemma registerLoop_ok:
  assumes "\<forall>i \<in> set is. i < length (pluginList st)"
      and "\<forall>p \<in> set (pluginList st). map_of (settings p) ''enable'' \<noteq> None"
      and "mainSettingsView st \<noteq> None"
  shows "\<exists>st'. registerLoop is st = Inr st'
           \<and> map loadView (pluginList st') = map loadView (pluginList st)
           \<and> username st' = username st
           \<and> mainSettingsView st' \<noteq> None
           \<and> heldRecord st' =
               fold (\<lambda>i. AList.update (pluginName (pluginList st ! i)) (snapshot (pluginList st ! i)))
                 is (heldRecord st)
           \<and> (is \<noteq> [] \<longrightarrow> databaseSettings st' = Some (heldRecord st')
                        \<and> database st' = (database st)(username st \<mapsto> heldRecord st'))
           \<and> (is = [] \<longrightarrow> st' = st)"
  using assms
proof (induction "is" arbitrary: st)
  case Nil
  then show ?case by simp
next
  case (Cons i "is")
  let ?ps = "pluginList st"
  from Cons.prems have i: "i < length ?ps" by simp
  then have en: "map_of (settings (?ps ! i)) ''enable'' \<noteq> None"
    using Cons.prems(2) by simp
  from Cons.prems(3) obtain rows where rows: "mainSettingsView st = Some rows" by auto
  let ?w = "AList.update (pluginName (?ps ! i)) (snapshot (?ps ! i)) (heldRecord st)"
  define st1 where "st1 = st\<lparr>pluginList := ?ps[i := makeSettingsReactive (?ps ! i)],
                 databaseSettings := Some ?w,
                 database := (database st)(username st \<mapsto> ?w),
                 trace := trace st @ [EvPut (username st) ?w],
                 mainSettingsView := Some (rows @ [pluginName (?ps ! i)])\<rparr>"
  have step: "registerStep i st = Inr st1"
    using registerStep_ok [OF i en rows] by (simp add: st1_def Let_def)
  have v1: "map loadView (pluginList st1) = map loadView ?ps"
    using i by (simp add: st1_def map_update makeSettingsReactive_loadView list_update_same_conv)
  have l1: "length (pluginList st1) = length ?ps"
    by (simp add: st1_def)
  have p1: "\<forall>j \<in> set is. j < length (pluginList st1)"
    using Cons.prems(1) l1 by simp
  have e1: "\<forall>p \<in> set (pluginList st1). map_of (settings p) ''enable'' \<noteq> None"
    using views_all_has [OF v1 Cons.prems(2)] .
  have m1: "mainSettingsView st1 \<noteq> None"
    by (simp add: st1_def)
  from Cons.IH [OF p1 e1 m1] obtain st' where st':
    "registerLoop is st1 = Inr st'"
    "map loadView (pluginList st') = map loadView (pluginList st1)"
    "username st' = username st1"
    "mainSettingsView st' \<noteq> None"
    "heldRecord st' = fold (\<lambda>i. AList.update (pluginName (pluginList st1 ! i)) (snapshot (pluginList st1 ! i)))
                 is (heldRecord st1)"
    "is \<noteq> [] \<longrightarrow> databaseSettings st' = Some (heldRecord st')
                        \<and> database st' = (database st1)(username st1 \<mapsto> heldRecord st')"
    "is = [] \<longrightarrow> st' = st1"
    by blast
  have same: "AList.update (pluginName (pluginList st1 ! j)) (snapshot (pluginList st1 ! j))
                  = AList.update (pluginName (?ps ! j)) (snapshot (?ps ! j))" if "j \<in> set is" for j
  proof -
    from that have "j < length ?ps" using Cons.prems(1) by simp
    then have "loadView (pluginList st1 ! j) = loadView (?ps ! j)"
      using views_nth [OF v1] by simp
    from loadView_name [OF this] loadView_snapshot [OF this]
    show ?thesis by simp
  qed
  have h1: "heldRecord st1 = ?w" "username st1 = username st"
    "database st1 = (database st)(username st \<mapsto> ?w)" "databaseSettings st1 = Some ?w"
    by (simp_all add: st1_def heldRecord_def)
  have held: "heldRecord st' =
               fold (\<lambda>i. AList.update (pluginName (?ps ! i)) (snapshot (?ps ! i)))
                 (i # is) (heldRecord st)"
  proof -
    have "fold (\<lambda>i. AList.update (pluginName (pluginList st1 ! i)) (snapshot (pluginList st1 ! i))) is ?w
        = fold (\<lambda>i. AList.update (pluginName (?ps ! i)) (snapshot (?ps ! i))) is ?w"
      by (rule fold_cong [OF refl refl]) (rule same)
    then show ?thesis
      using st'(5) h1(1) by simp
  qed
  have db: "databaseSettings st' = Some (heldRecord st')
          \<and> database st' = (database st)(username st \<mapsto> heldRecord st')"
  proof (cases "is = []")
    case True
    with st'(7) show ?thesis by (simp add: h1)
  next
    case False
    with st'(6) show ?thesis by (simp add: h1)
  qed
  show ?case
  proof (intro exI conjI)
    show "registerLoop (i # is) st = Inr st'"
      using step st'(1) by simp
    show "map loadView (pluginList st') = map loadView ?ps"
      using st'(2) v1 by simp
    show "username st' = username st"
      using st'(3) h1(2) by simp
    show "mainSettingsView st' \<noteq> None"
      by (rule st'(4))
    show "heldRecord st' =
               fold (\<lambda>i. AList.update (pluginName (?ps ! i)) (snapshot (?ps ! i)))
                 (i # is) (heldRecord st)"
      by (rule held)
    show "i # is \<noteq> [] \<longrightarrow> databaseSettings st' = Some (heldRecord st')
                        \<and> database st' = (database st)(username st \<mapsto> heldRecord st')"
      using db by simp
    show "i # is = [] \<longrightarrow> st' = st"
      by simp
  qed
qed

lemma loadSetting_frame:
  "username (loadSetting exec pn k v st) = username st
   \<and> database (loadSetting exec pn k v st) = database st
   \<and> databaseSettings (loadSetting exec pn k v st) = databaseSettings st
   \<and> mainSettingsView (loadSetting exec pn k v st) = mainSettingsView st"
  by (simp add: loadSetting_def setValue_def callFn_def Let_def split: option.splits)

lemma loadSettingData_frame:
  "username (loadSettingData exec pn d st) = username st
   \<and> database (loadSettingData exec pn d st) = database st
   \<and> databaseSettings (loadSettingData exec pn d st) = databaseSettings st
   \<and> mainSettingsView (loadSettingData exec pn d st) = mainSettingsView st"
  by (induction d arbitrary: st) (auto simp: loadSetting_frame)

lemma loadRecord_frame:
  "username (loadRecord exec r st) = username st
   \<and> database (loadRecord exec r st) = database st
   \<and> databaseSettings (loadRecord exec r st) = databaseSettings st
   \<and> mainSettingsView (loadRecord exec r st) = mainSettingsView st"
  by (induction r arbitrary: st) (auto simp: loadSettingData_frame)

lemma loadPhase_frame:
  "username (loadPhase exec st) = username st
   \<and> database (loadPhase exec st) = database st
   \<and> databaseSettings (loadPhase exec st) = database st (username st)
   \<and> mainSettingsView (loadPhase exec st) = mainSettingsView st"
  by (simp add: loadPhase_def Let_def loadRecord_frame split: option.splits)

text \<open>The read at the start of registerPlugins makes the held record the stored one.\<close>

lemma loadPhase_sync:
  "databaseSettings (loadPhase exec st) = database (loadPhase exec st) (username (loadPhase exec st))"
  using loadPhase_frame [of exec st] by simp

lemma fold_nth: "fold (\<lambda>i. g (xs ! i)) [0..<length xs] = fold g xs"
proof -
  have "fold g (map (\<lambda>i. xs ! i) [0..<length xs]) = fold (g \<circ> (\<lambda>i. xs ! i)) [0..<length xs]"
    by (rule fold_map)
  then show ?thesis
    by (simp add: map_nth comp_def)
qed

lemma writeBack_other:
  "k \<notin> pluginName ` set ps \<Longrightarrow>
     map_of (fold (\<lambda>p. AList.update (pluginName p) (snapshot p)) ps r) k = map_of r k"
  by (induction ps arbitrary: r) (auto simp: AList.update_conv')

lemma writeBack_own:
  "distinct (map pluginName ps) \<Longrightarrow> p \<in> set ps \<Longrightarrow>
     map_of (fold (\<lambda>p. AList.update (pluginName p) (snapshot p)) ps r) (pluginName p) = Some (snapshot p)"
proof (induction ps arbitrary: r)
  case Nil
  then show ?case by simp
next
  case (Cons q ps)
  show ?case
  proof (cases "p = q")
    case True
    with Cons.prems(1) have "pluginName p \<notin> pluginName ` set ps" by auto
    from writeBack_other [OF this] True show ?thesis
      by (simp add: AList.update_conv')
  next
    case False
    with Cons.prems have "p \<in> set ps" "distinct (map pluginName ps)" by auto
    from Cons.IH [OF this(2,1)] show ?thesis by simp
  qed
qed

lemma update_fresh: "k \<notin> fst ` set r \<Longrightarrow> AList.update k v r = r @ [(k, v)]"
  by (induction r) auto

lemma writeBack_fresh:
  "distinct (map pluginName ps) \<Longrightarrow> pluginName ` set ps \<inter> fst ` set r = {} \<Longrightarrow>
     fold (\<lambda>p. AList.update (pluginName p) (snapshot p)) ps r
       = r @ map (\<lambda>p. (pluginName p, snapshot p)) ps"
proof (induction ps arbitrary: r)
  case Nil
  then show ?case by simp
next
  case (Cons q ps)
  from Cons.prems(2) have "pluginName q \<notin> fst ` set r" by auto
  then have u: "AList.update (pluginName q) (snapshot q) r = r @ [(pluginName q, snapshot q)]"
    by (rule update_fresh)
  have "pluginName ` set ps \<inter> fst ` set (r @ [(pluginName q, snapshot q)]) = {}"
    using Cons.prems by auto
  moreover have "distinct (map pluginName ps)"
    using Cons.prems(1) by simp
  ultimately show ?case
    using Cons.IH [of "r @ [(pluginName q, snapshot q)]"] u by simp
qed

lemma writeBack_distinct:
  "distinct (map fst r) \<Longrightarrow>
     distinct (map fst (fold (\<lambda>p. AList.update (pluginName p) (snapshot p)) ps r))"
  by (induction ps arbitrary: r) (auto simp: AList.distinct_update)

lemma writeBack_fixed:
  "\<forall>p \<in> set ps. map_of r (pluginName p) = Some (snapshot p) \<Longrightarrow>
     fold (\<lambda>p. AList.update (pluginName p) (snapshot p)) ps r = r"
  by (induction ps) (auto simp: AList.update_triv)

lemma snapshot_keys: "map fst (snapshot p) = map fst (settings p)"
  by (simp add: snapshot_def comp_def case_prod_unfold)

text \<open>
  C6. When, after the load phase, every registered plugin has its \<open>enable\<close> setting, plugin
  names are distinct and the main view exists, registerPlugins returns, and in the store each
  registered plugin's name then maps to that plugin's snapshot, which has every setting key
  of the plugin in order. This holds whether or not the record had an entry for the plugin.
  For a user with no record the stored record consists of exactly these entries; entries
  under names that are not registered stay as they were. The write-back changes no value.
\<close>

theorem write_back_all:
  assumes "\<forall>p \<in> set (pluginList (loadPhase exec st)). map_of (settings p) ''enable'' \<noteq> None"
      and "distinct (map pluginName (pluginList (loadPhase exec st)))"
      and "mainSettingsView st \<noteq> None"
  shows "\<exists>st'. registerPlugins exec st = Inr st'
          \<and> map loadView (pluginList st') = map loadView (pluginList (loadPhase exec st))
          \<and> (\<forall>p \<in> set (pluginList (loadPhase exec st)).
                persisted st' (username st) (pluginName p) = Some (snapshot p)
                \<and> map fst (snapshot p) = map fst (settings p))
          \<and> (pluginList (loadPhase exec st) \<noteq> [] \<and> database st (username st) = None \<longrightarrow>
                database st' (username st)
                  = Some (map (\<lambda>p. (pluginName p, snapshot p)) (pluginList (loadPhase exec st))))
          \<and> (\<forall>pn. pn \<notin> pluginName ` set (pluginList (loadPhase exec st)) \<longrightarrow>
                persisted st' (username st) pn = persisted st (username st) pn)"
proof -
  let ?st2 = "loadPhase exec st"
  let ?ps = "pluginList ?st2"
  let ?w = "fold (\<lambda>p. AList.update (pluginName p) (snapshot p)) ?ps (heldRecord ?st2)"
  have fr: "username ?st2 = username st" "database ?st2 = database st"
    "databaseSettings ?st2 = database st (username st)" "mainSettingsView ?st2 = mainSettingsView st"
    using loadPhase_frame [of exec st] by simp_all
  have m: "mainSettingsView ?st2 \<noteq> None"
    using assms(3) fr(4) by simp
  have idx: "\<forall>i \<in> set [0..<length ?ps]. i < length ?ps"
    by simp
  from registerLoop_ok [OF idx assms(1) m] obtain st' where st':
    "registerLoop [0..<length ?ps] ?st2 = Inr st'"
    "map loadView (pluginList st') = map loadView ?ps"
    "heldRecord st' = fold (\<lambda>i. AList.update (pluginName (?ps ! i)) (snapshot (?ps ! i)))
                 [0..<length ?ps] (heldRecord ?st2)"
    "[0..<length ?ps] \<noteq> [] \<longrightarrow> databaseSettings st' = Some (heldRecord st')
                        \<and> database st' = (database ?st2)(username ?st2 \<mapsto> heldRecord st')"
    "[0..<length ?ps] = [] \<longrightarrow> st' = ?st2"
    by blast
  have w: "heldRecord st' = ?w"
    using st'(3) fold_nth [of "\<lambda>p. AList.update (pluginName p) (snapshot p)" ?ps] by simp
  have held2: "heldRecord ?st2 = (case database st (username st) of None \<Rightarrow> [] | Some r \<Rightarrow> r)"
    by (simp add: heldRecord_def fr)
  have db: "?ps \<noteq> [] \<Longrightarrow> database st' (username st) = Some ?w"
    using st'(4) w fr by simp
  have db0: "?ps = [] \<Longrightarrow> database st' = database st"
    using st'(5) fr by simp
  have own: "persisted st' (username st) (pluginName p) = Some (snapshot p)" if "p \<in> set ?ps" for p
  proof -
    from that have "?ps \<noteq> []" by auto
    with db show ?thesis
      using writeBack_own [OF assms(2) that] by (simp add: persisted_def)
  qed
  have first: "database st' (username st) = Some (map (\<lambda>p. (pluginName p, snapshot p)) ?ps)"
    if "?ps \<noteq> []" "database st (username st) = None"
  proof -
    have "heldRecord ?st2 = []"
      using that(2) held2 by simp
    then have "?w = map (\<lambda>p. (pluginName p, snapshot p)) ?ps"
      using writeBack_fresh [OF assms(2), of "[]"] by simp
    with db [OF that(1)] show ?thesis by simp
  qed
  have other: "persisted st' (username st) pn = persisted st (username st) pn"
    if "pn \<notin> pluginName ` set ?ps" for pn
  proof (cases "?ps = []")
    case True
    with db0 show ?thesis by (simp add: persisted_def)
  next
    case False
    from db [OF False] writeBack_other [OF that, of "heldRecord ?st2"] show ?thesis
      by (simp add: persisted_def held2 split: option.splits)
  qed
  show ?thesis
  proof (intro exI conjI ballI allI impI)
    show "registerPlugins exec st = Inr st'"
      using st'(1) by (simp add: registerPlugins_def Let_def)
    show "map loadView (pluginList st') = map loadView ?ps"
      by (rule st'(2))
  next
    fix p assume "p \<in> set ?ps"
    then show "persisted st' (username st) (pluginName p) = Some (snapshot p)"
      by (rule own)
    show "map fst (snapshot p) = map fst (settings p)"
      by (rule snapshot_keys)
  next
    assume "?ps \<noteq> [] \<and> database st (username st) = None"
    then show "database st' (username st) = Some (map (\<lambda>p. (pluginName p, snapshot p)) ?ps)"
      using first by simp
  next
    fix pn assume "pn \<notin> pluginName ` set ?ps"
    then show "persisted st' (username st) pn = persisted st (username st) pn"
      by (rule other)
  qed
qed

theorem write_back_all_witness:
  "pluginList (loadPhase noEffect freshManager) = [nameplates, idleAlert]
   \<and> map_of (settings nameplates) ''enable'' \<noteq> None
   \<and> map_of (settings idleAlert) ''enable'' \<noteq> None
   \<and> distinct (map pluginName (pluginList (loadPhase noEffect freshManager)))
   \<and> mainSettingsView freshManager \<noteq> None
   \<and> database freshManager ''player'' = None
   \<and> (\<exists>st'. registerPlugins noEffect freshManager = Inr st'
          \<and> database st' ''player'' =
              Some [(''Nameplates'',
                      [(''enable'', VBool True), (''playerNameplates'', VBool True),
                       (''size'', VNum (Num 5)), (''offset'', VNum (Num 1)), (''label'', VStr ''hp''),
                       (''tint'', VStr ''#ff0000''), (''mode'', VStr ''z'')]),
                    (''IdleAlert'', [(''enable'', VBool True), (''volume'', VNum (Num 50))])])"
proof -
  have lp: "loadPhase noEffect freshManager = freshManager"
    by (simp add: loadPhase_def freshManager_def)
  have ps: "pluginList freshManager = [nameplates, idleAlert]" "username freshManager = ''player''"
    "database freshManager ''player'' = None" "mainSettingsView freshManager \<noteq> None"
    by (simp_all add: freshManager_def)
  have e: "\<forall>p \<in> set (pluginList (loadPhase noEffect freshManager)). map_of (settings p) ''enable'' \<noteq> None"
    by (simp add: lp ps nameplates_def modeSetting_def idleAlert_def lockedEnable_def)
  have d: "distinct (map pluginName (pluginList (loadPhase noEffect freshManager)))"
    by (simp add: lp ps nameplates_def modeSetting_def idleAlert_def lockedEnable_def)
  have s: "snapshot nameplates = [(''enable'', VBool True), (''playerNameplates'', VBool True),
                       (''size'', VNum (Num 5)), (''offset'', VNum (Num 1)), (''label'', VStr ''hp''),
                       (''tint'', VStr ''#ff0000''), (''mode'', VStr ''z'')]"
     "snapshot idleAlert = [(''enable'', VBool True), (''volume'', VNum (Num 50))]"
     "pluginName nameplates = ''Nameplates''" "pluginName idleAlert = ''IdleAlert''"
    by (simp_all add: snapshot_def nameplates_def modeSetting_def idleAlert_def lockedEnable_def noopSetting_def)
  from write_back_all [OF e d ps(4)] obtain st' where
    "registerPlugins noEffect freshManager = Inr st'"
    "pluginList (loadPhase noEffect freshManager) \<noteq> [] \<and> database freshManager (username freshManager) = None \<longrightarrow>
                database st' (username freshManager)
                  = Some (map (\<lambda>p. (pluginName p, snapshot p)) (pluginList (loadPhase noEffect freshManager)))"
    by blast
  then have "registerPlugins noEffect freshManager = Inr st' \<and> database st' ''player'' =
              Some [(''Nameplates'',
                      [(''enable'', VBool True), (''playerNameplates'', VBool True),
                       (''size'', VNum (Num 5)), (''offset'', VNum (Num 1)), (''label'', VStr ''hp''),
                       (''tint'', VStr ''#ff0000''), (''mode'', VStr ''z'')]),
                    (''IdleAlert'', [(''enable'', VBool True), (''volume'', VNum (Num 50))])]"
    by (simp add: lp ps s)
  moreover have "pluginList (loadPhase noEffect freshManager) = [nameplates, idleAlert]"
    by (simp add: lp ps)
  moreover have "map_of (settings nameplates) ''enable'' \<noteq> None"
    "map_of (settings idleAlert) ''enable'' \<noteq> None"
    by (simp_all add: nameplates_def modeSetting_def idleAlert_def lockedEnable_def)
  ultimately show ?thesis
    using d ps(3,4) by blast
qed

section \<open>The load phase on a record that agrees with the plugins\<close>

lemma findPlugin_names:
  "map pluginName ps' = map pluginName ps \<Longrightarrow> findPlugin ps' n = findPlugin ps n"
proof (induction ps arbitrary: ps')
  case Nil
  then show ?case by simp
next
  case (Cons p ps)
  from Cons.prems obtain q qs where q: "ps' = q # qs" "pluginName q = pluginName p"
    "map pluginName qs = map pluginName ps"
    by (cases ps') auto
  from Cons.IH [OF q(3)] q(1,2) show ?case by simp
qed

lemma views_names: "map loadView ps' = map loadView ps \<Longrightarrow> map pluginName ps' = map pluginName ps"
proof -
  assume "map loadView ps' = map loadView ps"
  then have "map fst (map loadView ps') = map fst (map loadView ps)"
    by (rule arg_cong)
  then show ?thesis
    by (simp add: loadView_def comp_def)
qed

lemma views_keys:
  "map loadView ps' = map loadView ps \<Longrightarrow>
     map (\<lambda>p. map fst (settings p)) ps' = map (\<lambda>p. map fst (settings p)) ps"
proof -
  assume "map loadView ps' = map loadView ps"
  then have "map (\<lambda>x. map fst (snd x)) (map loadView ps') = map (\<lambda>x. map fst (snd x)) (map loadView ps)"
    by (rule arg_cong)
  then show ?thesis
    by (simp add: loadView_def comp_def case_prod_unfold)
qed

lemma views_snapshots:
  "map loadView ps' = map loadView ps \<Longrightarrow>
     map (\<lambda>p. (pluginName p, snapshot p)) ps' = map (\<lambda>p. (pluginName p, snapshot p)) ps"
proof -
  assume "map loadView ps' = map loadView ps"
  then have "map (\<lambda>x. (fst x, map (\<lambda>(k, v, h). (k, v)) (snd x))) (map loadView ps')
           = map (\<lambda>x. (fst x, map (\<lambda>(k, v, h). (k, v)) (snd x))) (map loadView ps)"
    by (rule arg_cong)
  then show ?thesis
    by (simp add: loadView_def snapshot_def comp_def case_prod_unfold)
qed

lemma findPlugin_views:
  "map loadView ps' = map loadView ps \<Longrightarrow> findPlugin ps' n = findPlugin ps n"
  by (rule findPlugin_names) (rule views_names)

lemma findPlugin_Some:
  "findPlugin ps n = Some i \<Longrightarrow> i < length ps \<and> pluginName (ps ! i) = n"
proof (induction ps arbitrary: i)
  case Nil
  then show ?case by simp
next
  case (Cons p ps)
  show ?case
  proof (cases "pluginName p = n")
    case True
    with Cons.prems show ?thesis by simp
  next
    case False
    with Cons.prems obtain j where "findPlugin ps n = Some j" "i = Suc j" by auto
    with Cons.IH show ?thesis by simp
  qed
qed

lemma loadView_value:
  assumes "loadView p = loadView q"
  shows "map_option value_s (map_of (settings p) k) = map_option value_s (map_of (settings q) k)"
proof -
  have "map_of (snapshot p) k = map_of (snapshot q) k"
    using loadView_snapshot [OF assms] by simp
  then show ?thesis
    by (simp add: snapshot_def map_of_map)
qed

lemma map_entry_same:
  "map_of xs k = Some s \<Longrightarrow> f s = s \<Longrightarrow> AList.map_entry k f xs = xs"
  by (induction xs) (auto split: if_splits)

lemma map_fst_map_entry: "map fst (AList.map_entry k f xs) = map fst xs"
  by (induction xs) auto

lemma setSettingValue_same:
  "map_of (settings p) k = Some s \<Longrightarrow> value_s s = v \<Longrightarrow> setSettingValue k v p = p"
  by (simp add: setSettingValue_def map_entry_same)

lemma valueAt_views:
  assumes "map loadView ps' = map loadView ps"
  shows "valueAt ps' pn k = valueAt ps pn k"
proof (cases "findPlugin ps pn")
  case None
  then show ?thesis
    using findPlugin_views [OF assms, of pn] by (simp add: valueAt_def)
next
  case (Some i)
  then have "i < length ps"
    using findPlugin_Some by blast
  from views_nth [OF assms this] have "loadView (ps' ! i) = loadView (ps ! i)" .
  from loadView_value [OF this] Some show ?thesis
    using findPlugin_views [OF assms, of pn] by (simp add: valueAt_def)
qed

lemma loadSetting_agree:
  assumes "keepsLoadView exec"
      and "v \<noteq> VUndefined \<longrightarrow> valueAt (pluginList st) pn k = None \<or> valueAt (pluginList st) pn k = Some v"
  shows "map loadView (pluginList (loadSetting exec pn k v st)) = map loadView (pluginList st)"
proof (cases "v = VUndefined")
  case True
  then show ?thesis by (simp add: loadSetting_def)
next
  case False
  show ?thesis
  proof (cases "findPlugin (pluginList st) pn")
    case None
    then show ?thesis by (simp add: loadSetting_def)
  next
    case (Some i)
    show ?thesis
    proof (cases "map_of (settings (pluginList st ! i)) k")
      case None
      with Some show ?thesis by (simp add: loadSetting_def)
    next
      case s: (Some s)
      with Some False assms(2) have "value_s s = v"
        by (simp add: valueAt_def)
      from setSettingValue_same [OF s this] have "pluginList (setValue i k v st) = pluginList st"
        by (simp add: setValue_def)
      then show ?thesis
        using Some s False assms(1)
        by (simp add: loadSetting_def callFn_def keepsLoadView_def Let_def split: option.splits)
    qed
  qed
qed

lemma loadSettingData_agree:
  assumes "keepsLoadView exec"
      and "\<forall>(k, v) \<in> set d. v \<noteq> VUndefined \<longrightarrow>
             valueAt (pluginList st) pn k = None \<or> valueAt (pluginList st) pn k = Some v"
  shows "map loadView (pluginList (loadSettingData exec pn d st)) = map loadView (pluginList st)"
  using assms(2)
proof (induction d arbitrary: st)
  case Nil
  then show ?case by simp
next
  case (Cons e d)
  obtain k v where e: "e = (k, v)" by (cases e)
  let ?st1 = "loadSetting exec pn k v st"
  have one: "map loadView (pluginList ?st1) = map loadView (pluginList st)"
    using Cons.prems e by (intro loadSetting_agree [OF assms(1)]) simp
  have "\<forall>(k, v) \<in> set d. v \<noteq> VUndefined \<longrightarrow>
             valueAt (pluginList ?st1) pn k = None \<or> valueAt (pluginList ?st1) pn k = Some v"
    using Cons.prems by (simp add: valueAt_views [OF one])
  from Cons.IH [OF this] one e show ?case by simp
qed

lemma loadRecord_agree:
  assumes "keepsLoadView exec"
      and "\<forall>(pn, d) \<in> set r. \<forall>(k, v) \<in> set d. v \<noteq> VUndefined \<longrightarrow>
             valueAt (pluginList st) pn k = None \<or> valueAt (pluginList st) pn k = Some v"
  shows "map loadView (pluginList (loadRecord exec r st)) = map loadView (pluginList st)"
  using assms(2)
proof (induction r arbitrary: st)
  case Nil
  then show ?case by simp
next
  case (Cons e r)
  obtain pn d where e: "e = (pn, d)" by (cases e)
  let ?st1 = "loadSettingData exec pn d st"
  have one: "map loadView (pluginList ?st1) = map loadView (pluginList st)"
    using Cons.prems e by (intro loadSettingData_agree [OF assms(1)]) simp
  have "\<forall>(pn, d) \<in> set r. \<forall>(k, v) \<in> set d. v \<noteq> VUndefined \<longrightarrow>
             valueAt (pluginList ?st1) pn k = None \<or> valueAt (pluginList ?st1) pn k = Some v"
    using Cons.prems by (simp add: valueAt_views [OF one])
  from Cons.IH [OF this] one e show ?case by simp
qed

section \<open>Running registerPlugins twice\<close>

lemma views_settingKeys:
  assumes "map loadView ps' = map loadView ps"
  shows "map settingKeys ps' = map settingKeys ps"
proof -
  have "map (\<lambda>x. (fst x, map fst (snd x))) (map loadView ps')
      = map (\<lambda>x. (fst x, map fst (snd x))) (map loadView ps)"
    using assms by (rule arg_cong)
  then show ?thesis
    by (simp add: loadView_def settingKeys_def [abs_def] comp_def case_prod_unfold)
qed

lemma settingKeys_setSettingValue: "settingKeys (setSettingValue k v p) = settingKeys p"
  by (simp add: settingKeys_def setSettingValue_def map_fst_map_entry)

lemma settingKeys_setValue:
  "map settingKeys (pluginList (setValue i k v st)) = map settingKeys (pluginList st)"
proof -
  have "map settingKeys ((pluginList st)[i := setSettingValue k v (pluginList st ! i)])
      = map settingKeys ((pluginList st)[i := pluginList st ! i])"
    by (simp only: map_update settingKeys_setSettingValue)
  then show ?thesis
    by (simp add: setValue_def)
qed

lemma loadSetting_settingKeys:
  assumes "keepsLoadView exec"
  shows "map settingKeys (pluginList (loadSetting exec pn k v st)) = map settingKeys (pluginList st)"
proof -
  have "map settingKeys (exec f i (pluginList (setValue j k v st))) = map settingKeys (pluginList st)"
    for f i j
    using assms views_settingKeys [of "exec f i (pluginList (setValue j k v st))" "pluginList (setValue j k v st)"]
    by (simp add: keepsLoadView_def settingKeys_setValue)
  then show ?thesis
    by (simp add: loadSetting_def callFn_def Let_def settingKeys_setValue split: option.splits)
qed

lemma loadSettingData_settingKeys:
  assumes "keepsLoadView exec"
  shows "map settingKeys (pluginList (loadSettingData exec pn d st)) = map settingKeys (pluginList st)"
  by (induction d arbitrary: st) (auto simp: loadSetting_settingKeys [OF assms])

lemma loadRecord_settingKeys:
  assumes "keepsLoadView exec"
  shows "map settingKeys (pluginList (loadRecord exec r st)) = map settingKeys (pluginList st)"
  by (induction r arbitrary: st) (auto simp: loadSettingData_settingKeys [OF assms])

lemma loadPhase_settingKeys:
  assumes "keepsLoadView exec"
  shows "map settingKeys (pluginList (loadPhase exec st)) = map settingKeys (pluginList st)"
  by (simp add: loadPhase_def Let_def loadRecord_settingKeys [OF assms] split: option.splits)

lemma settingKeys_names:
  assumes "map settingKeys ps' = map settingKeys ps"
  shows "map pluginName ps' = map pluginName ps"
proof -
  have "map fst (map settingKeys ps') = map fst (map settingKeys ps)"
    using assms by (rule arg_cong)
  then show ?thesis
    by (simp add: settingKeys_def comp_def)
qed

lemma settingKeys_transfer:
  assumes "map settingKeys ps' = map settingKeys ps"
      and "\<forall>p \<in> set ps. P (map fst (settings p))"
  shows "\<forall>p \<in> set ps'. P (map fst (settings p))"
proof
  fix p assume "p \<in> set ps'"
  then have "settingKeys p \<in> set (map settingKeys ps')" by simp
  then have "settingKeys p \<in> set (map settingKeys ps)" using assms(1) by simp
  then obtain q where "q \<in> set ps" "settingKeys q = settingKeys p" by auto
  then have "q \<in> set ps" "map fst (settings q) = map fst (settings p)"
    by (simp_all add: settingKeys_def)
  with assms(2) show "P (map fst (settings p))" by metis
qed

lemma has_key_iff: "map_of xs k \<noteq> None \<longleftrightarrow> k \<in> set (map fst xs)"
  by (simp add: map_of_eq_None_iff)

lemma writeBack_views:
  assumes "map loadView ps' = map loadView ps"
  shows "fold (\<lambda>p. AList.update (pluginName p) (snapshot p)) ps' r
       = fold (\<lambda>p. AList.update (pluginName p) (snapshot p)) ps r"
proof -
  have "fold (\<lambda>p. AList.update (pluginName p) (snapshot p)) qs r
      = fold (\<lambda>(n, s). AList.update n s) (map (\<lambda>p. (pluginName p, snapshot p)) qs) r" for qs
    by (simp add: fold_map comp_def)
  then show ?thesis
    using views_snapshots [OF assms] by simp
qed

lemma snapshot_entry:
  assumes "distinct (map fst (settings p))" and "(k, v) \<in> set (snapshot p)"
  shows "map_option value_s (map_of (settings p) k) = Some v"
proof -
  have "distinct (map fst (snapshot p))"
    using assms(1) by (simp add: snapshot_keys)
  from map_of_is_SomeI [OF this assms(2)] show ?thesis
    by (simp add: snapshot_def map_of_map)
qed

lemma rerun_fixed:
  assumes "keepsLoadView exec"
      and "databaseSettings st = database st (username st)"
      and "\<forall>p \<in> set (pluginList st). map_of (heldRecord st) (pluginName p) = Some (snapshot p)"
      and "distinct (map fst (heldRecord st))"
      and "\<forall>p \<in> set (pluginList st). distinct (map fst (settings p))"
      and "\<forall>p \<in> set (pluginList st). map_of (settings p) ''enable'' \<noteq> None"
      and "mainSettingsView st \<noteq> None"
  shows "\<exists>st'. registerPlugins exec st = Inr st'
           \<and> map loadView (pluginList st') = map loadView (pluginList st)
           \<and> database st' = database st
           \<and> databaseSettings st' = databaseSettings st"
proof (cases "databaseSettings st")
  case None
  then have "heldRecord st = []" by (simp add: heldRecord_def)
  with assms(3) have "pluginList st = []" by (cases "pluginList st") auto
  moreover have "loadPhase exec st = st"
    using None assms(2) by (simp add: loadPhase_def Let_def)
  ultimately show ?thesis
    by (simp add: registerPlugins_def Let_def)
next
  case (Some r)
  let ?ps = "pluginList st"
  have held: "heldRecord st = r" using Some by (simp add: heldRecord_def)
  have same: "st\<lparr>databaseSettings := database st (username st)\<rparr> = st"
    using assms(2) by simp
  have lp: "loadPhase exec st = loadRecord exec r st"
    unfolding loadPhase_def Let_def same by (simp add: Some)
  let ?sl = "loadRecord exec r st"
  have agree: "\<forall>(pn, d) \<in> set r. \<forall>(k, v) \<in> set d. v \<noteq> VUndefined \<longrightarrow>
             valueAt ?ps pn k = None \<or> valueAt ?ps pn k = Some v"
  proof (intro ballI, clarify)
    fix pn d k v
    assume pd: "(pn, d) \<in> set r" and kv: "(k, v) \<in> set d"
      and nn: "valueAt ?ps pn k \<noteq> Some v"
    show "valueAt ?ps pn k = None"
    proof (cases "findPlugin ?ps pn")
      case None
      then show ?thesis by (simp add: valueAt_def)
    next
      case (Some i)
      from findPlugin_Some [OF this] have i: "i < length ?ps" "pluginName (?ps ! i) = pn" by simp_all
      then have "map_of r pn = Some (snapshot (?ps ! i))"
        using assms(3) held by auto
      moreover have "map_of r pn = Some d"
        using assms(4) held pd by (simp add: map_of_is_SomeI)
      ultimately have "(k, v) \<in> set (snapshot (?ps ! i))"
        using kv by simp
      moreover have "distinct (map fst (settings (?ps ! i)))"
        using assms(5) i(1) by simp
      ultimately have "map_option value_s (map_of (settings (?ps ! i)) k) = Some v"
        using snapshot_entry by blast
      with Some nn show ?thesis by (simp add: valueAt_def)
    qed
  qed
  have views: "map loadView (pluginList ?sl) = map loadView ?ps"
    by (rule loadRecord_agree [OF assms(1) agree])
  have fr: "username ?sl = username st" "database ?sl = database st"
    "databaseSettings ?sl = Some r" "mainSettingsView ?sl = mainSettingsView st"
    using loadRecord_frame [of exec r st] Some by simp_all
  have en: "\<forall>p \<in> set (pluginList ?sl). map_of (settings p) ''enable'' \<noteq> None"
    by (rule views_all_has [OF views assms(6)])
  have m: "mainSettingsView ?sl \<noteq> None"
    using fr(4) assms(7) by simp
  have idx: "\<forall>i \<in> set [0..<length (pluginList ?sl)]. i < length (pluginList ?sl)"
    by simp
  from registerLoop_ok [OF idx en m] obtain st' where st':
    "registerLoop [0..<length (pluginList ?sl)] ?sl = Inr st'"
    "map loadView (pluginList st') = map loadView (pluginList ?sl)"
    "heldRecord st' = fold (\<lambda>i. AList.update (pluginName (pluginList ?sl ! i)) (snapshot (pluginList ?sl ! i)))
                 [0..<length (pluginList ?sl)] (heldRecord ?sl)"
    "[0..<length (pluginList ?sl)] \<noteq> [] \<longrightarrow> databaseSettings st' = Some (heldRecord st')
                        \<and> database st' = (database ?sl)(username ?sl \<mapsto> heldRecord st')"
    "[0..<length (pluginList ?sl)] = [] \<longrightarrow> st' = ?sl"
    by blast
  have hl: "heldRecord ?sl = r"
    using fr(3) by (simp add: heldRecord_def)
  have "heldRecord st' = fold (\<lambda>p. AList.update (pluginName p) (snapshot p)) (pluginList ?sl) r"
    using st'(3) hl fold_nth [of "\<lambda>p. AList.update (pluginName p) (snapshot p)" "pluginList ?sl"]
    by simp
  also have "\<dots> = fold (\<lambda>p. AList.update (pluginName p) (snapshot p)) ?ps r"
    by (rule writeBack_views [OF views])
  also have "\<dots> = r"
    using assms(3) held by (intro writeBack_fixed) simp
  finally have w: "heldRecord st' = r" .
  have dbr: "database st (username st) = Some r"
    using assms(2) Some by simp
  have "databaseSettings st' = Some r \<and> database st' = database st"
  proof (cases "[0..<length (pluginList ?sl)] = []")
    case True
    with st'(5) fr show ?thesis by simp
  next
    case False
    with st'(4) w fr dbr show ?thesis by (simp add: fun_upd_idem)
  qed
  then show ?thesis
    using st'(1,2) views lp Some by (simp add: registerPlugins_def Let_def)
qed

lemma first_run:
  assumes "keepsLoadView exec"
      and "distinct (map pluginName (pluginList st))"
      and "\<forall>p \<in> set (pluginList st). distinct (map fst (settings p))"
      and "\<forall>p \<in> set (pluginList st). map_of (settings p) ''enable'' \<noteq> None"
      and "mainSettingsView st \<noteq> None"
      and "\<forall>r. database st (username st) = Some r \<longrightarrow> distinct (map fst r)"
  shows "\<exists>st1. registerPlugins exec st = Inr st1
           \<and> databaseSettings st1 = database st1 (username st1)
           \<and> (\<forall>p \<in> set (pluginList st1). map_of (heldRecord st1) (pluginName p) = Some (snapshot p))
           \<and> distinct (map fst (heldRecord st1))
           \<and> (\<forall>p \<in> set (pluginList st1). distinct (map fst (settings p)))
           \<and> (\<forall>p \<in> set (pluginList st1). map_of (settings p) ''enable'' \<noteq> None)
           \<and> mainSettingsView st1 \<noteq> None"
proof -
  let ?sl = "loadPhase exec st"
  let ?pl = "pluginList ?sl"
  let ?w = "fold (\<lambda>p. AList.update (pluginName p) (snapshot p)) ?pl (heldRecord ?sl)"
  have keys: "map settingKeys ?pl = map settingKeys (pluginList st)"
    by (rule loadPhase_settingKeys [OF assms(1)])
  have names: "distinct (map pluginName ?pl)"
    using settingKeys_names [OF keys] assms(2) by simp
  have dk: "\<forall>p \<in> set ?pl. distinct (map fst (settings p))"
    by (rule settingKeys_transfer [OF keys assms(3)])
  have "\<forall>p \<in> set (pluginList st). ''enable'' \<in> set (map fst (settings p))"
    using assms(4) by (simp only: has_key_iff)
  from settingKeys_transfer [OF keys, of "\<lambda>ks. ''enable'' \<in> set ks", OF this]
  have en: "\<forall>p \<in> set ?pl. map_of (settings p) ''enable'' \<noteq> None"
    by (simp only: has_key_iff)
  have fr: "username ?sl = username st" "database ?sl = database st"
    "databaseSettings ?sl = database st (username st)" "mainSettingsView ?sl = mainSettingsView st"
    using loadPhase_frame [of exec st] by simp_all
  have m: "mainSettingsView ?sl \<noteq> None"
    using fr(4) assms(5) by simp
  have idx: "\<forall>i \<in> set [0..<length ?pl]. i < length ?pl"
    by simp
  from registerLoop_ok [OF idx en m] obtain st1 where st1:
    "registerLoop [0..<length ?pl] ?sl = Inr st1"
    "map loadView (pluginList st1) = map loadView ?pl"
    "username st1 = username ?sl"
    "mainSettingsView st1 \<noteq> None"
    "heldRecord st1 = fold (\<lambda>i. AList.update (pluginName (?pl ! i)) (snapshot (?pl ! i)))
                 [0..<length ?pl] (heldRecord ?sl)"
    "[0..<length ?pl] \<noteq> [] \<longrightarrow> databaseSettings st1 = Some (heldRecord st1)
                        \<and> database st1 = (database ?sl)(username ?sl \<mapsto> heldRecord st1)"
    "[0..<length ?pl] = [] \<longrightarrow> st1 = ?sl"
    by blast
  have w: "heldRecord st1 = ?w"
    using st1(5) fold_nth [of "\<lambda>p. AList.update (pluginName p) (snapshot p)" ?pl] by simp
  have keys1: "map settingKeys (pluginList st1) = map settingKeys ?pl"
    by (rule views_settingKeys [OF st1(2)])
  have dk1: "\<forall>p \<in> set (pluginList st1). distinct (map fst (settings p))"
    by (rule settingKeys_transfer [OF keys1 dk])
  have en1: "\<forall>p \<in> set (pluginList st1). map_of (settings p) ''enable'' \<noteq> None"
    by (rule views_all_has [OF st1(2) en])
  have cov: "\<forall>p \<in> set (pluginList st1). map_of (heldRecord st1) (pluginName p) = Some (snapshot p)"
  proof
    fix p assume "p \<in> set (pluginList st1)"
    then obtain i where i: "i < length (pluginList st1)" "p = pluginList st1 ! i"
      by (auto simp: in_set_conv_nth)
    have il: "i < length ?pl"
      using i(1) views_length [OF st1(2)] by simp
    have v: "loadView p = loadView (?pl ! i)"
      using views_nth [OF st1(2) il] i(2) by simp
    have "map_of ?w (pluginName (?pl ! i)) = Some (snapshot (?pl ! i))"
      using il by (intro writeBack_own [OF names]) simp
    then show "map_of (heldRecord st1) (pluginName p) = Some (snapshot p)"
      using loadView_name [OF v] loadView_snapshot [OF v] w by simp
  qed
  have "distinct (map fst (heldRecord ?sl))"
    using assms(6) fr(3) by (simp add: heldRecord_def split: option.splits)
  then have dw: "distinct (map fst (heldRecord st1))"
    using w writeBack_distinct by simp
  have sync: "databaseSettings st1 = database st1 (username st1)"
  proof (cases "[0..<length ?pl] = []")
    case True
    with st1(7) fr show ?thesis by simp
  next
    case False
    with st1(6) st1(3) show ?thesis by simp
  qed
  show ?thesis
    using st1(1,4) sync cov dw dk1 en1 by (auto simp: registerPlugins_def Let_def)
qed

text \<open>
  Two runs under a callback interpretation in which no callback at all changes a plugin's
  name, setting keys, values or hooks.
\<close>

lemma two_runs_keeping_view:
  assumes "keepsLoadView exec"
      and "distinct (map pluginName (pluginList st))"
      and "\<forall>p \<in> set (pluginList st). distinct (map fst (settings p))"
      and "\<forall>p \<in> set (pluginList st). map_of (settings p) ''enable'' \<noteq> None"
      and "mainSettingsView st \<noteq> None"
      and "\<forall>r. database st (username st) = Some r \<longrightarrow> distinct (map fst r)"
  shows "\<exists>st1 st2. registerPlugins exec st = Inr st1
           \<and> registerPlugins exec st1 = Inr st2
           \<and> map (\<lambda>p. (pluginName p, snapshot p)) (pluginList st2)
               = map (\<lambda>p. (pluginName p, snapshot p)) (pluginList st1)
           \<and> database st2 = database st1
           \<and> databaseSettings st2 = databaseSettings st1"
proof -
  from first_run [OF assms] obtain st1 where st1:
    "registerPlugins exec st = Inr st1"
    "databaseSettings st1 = database st1 (username st1)"
    "\<forall>p \<in> set (pluginList st1). map_of (heldRecord st1) (pluginName p) = Some (snapshot p)"
    "distinct (map fst (heldRecord st1))"
    "\<forall>p \<in> set (pluginList st1). distinct (map fst (settings p))"
    "\<forall>p \<in> set (pluginList st1). map_of (settings p) ''enable'' \<noteq> None"
    "mainSettingsView st1 \<noteq> None"
    by blast
  from rerun_fixed [OF assms(1) st1(2-7)] obtain st2 where st2:
    "registerPlugins exec st1 = Inr st2"
    "map loadView (pluginList st2) = map loadView (pluginList st1)"
    "database st2 = database st1"
    "databaseSettings st2 = databaseSettings st1"
    by blast
  from views_snapshots [OF st2(2)] st1(1) st2(1,3,4) show ?thesis
    by blast
qed

text \<open>
  The load phase calls \<^verbatim>\<open>onLoaded\<close> hooks only, and only hooks of registered plugins.
  When those hooks keep each plugin's name, setting keys, values and hooks, the hooks that can
  be reached stay the same, and the load phase does not depend on what any other callback
  does.
\<close>

lemma loadHooks_views:
  "loadHooks ps =
     concat (map (\<lambda>(n, es). concat (map (\<lambda>(k, v, h). case h of None \<Rightarrow> [] | Some f \<Rightarrow> [f]) es))
               (map loadView ps))"
  by (simp add: loadHooks_def loadView_def comp_def case_prod_unfold)

lemma views_loadHooks:
  assumes "map loadView ps' = map loadView ps"
  shows "loadHooks ps' = loadHooks ps"
  by (simp only: loadHooks_views assms)

lemma hooks_setSettingValue:
  "concat (map (\<lambda>(k, s). case onLoaded s of None \<Rightarrow> [] | Some f \<Rightarrow> [f]) (settings (setSettingValue k v p)))
     = concat (map (\<lambda>(k, s). case onLoaded s of None \<Rightarrow> [] | Some f \<Rightarrow> [f]) (settings p))"
proof -
  have "concat (map (\<lambda>(k, s). case onLoaded s of None \<Rightarrow> [] | Some f \<Rightarrow> [f])
                  (AList.map_entry k (\<lambda>s. s\<lparr>value_s := v\<rparr>) xs))
      = concat (map (\<lambda>(k, s). case onLoaded s of None \<Rightarrow> [] | Some f \<Rightarrow> [f]) xs)"
    for xs :: "(string \<times> PluginSettings) list"
    by (induction xs) auto
  then show ?thesis
    by (simp add: setSettingValue_def)
qed

lemma map_update_same:
  assumes "f y = f (xs ! i)"
  shows "map f (xs[i := y]) = map f xs"
proof -
  have "map f (xs[i := y]) = map f (xs[i := xs ! i])"
    by (simp only: map_update assms)
  then show ?thesis by simp
qed

lemma loadHooks_setValue:
  "loadHooks (pluginList (setValue i k v st)) = loadHooks (pluginList st)"
proof -
  let ?h = "\<lambda>p. concat (map (\<lambda>(k, s). case onLoaded s of None \<Rightarrow> [] | Some f \<Rightarrow> [f]) (settings p))"
  have "map ?h ((pluginList st)[i := setSettingValue k v (pluginList st ! i)]) = map ?h (pluginList st)"
    by (rule map_update_same) (rule hooks_setSettingValue)
  then show ?thesis
    by (simp add: loadHooks_def setValue_def)
qed

lemma concat_map_mem: "x \<in> set xs \<Longrightarrow> y \<in> set (g x) \<Longrightarrow> y \<in> set (concat (map g xs))"
  by auto

lemma loadHooks_mem:
  assumes "i < length ps" and "map_of (settings (ps ! i)) k = Some s" and "onLoaded s = Some f"
  shows "f \<in> set (loadHooks ps)"
proof -
  have ks: "(k, s) \<in> set (settings (ps ! i))"
    using assms(2) by (rule map_of_SomeD)
  have p: "ps ! i \<in> set ps"
    using assms(1) by simp
  have "f \<in> set (case (k, s) of (k, s) \<Rightarrow> case onLoaded s of None \<Rightarrow> [] | Some f \<Rightarrow> [f])"
    using assms(3) by simp
  with ks have "f \<in> set (concat (map (\<lambda>(k, s). case onLoaded s of None \<Rightarrow> [] | Some f \<Rightarrow> [f])
                               (settings (ps ! i))))"
    by (rule concat_map_mem)
  with p show ?thesis
    unfolding loadHooks_def by (rule concat_map_mem)
qed

lemma onlyHooks_keeps:
  assumes "\<forall>f \<in> set H. \<forall>i qs. map loadView (exec f i qs) = map loadView qs"
  shows "keepsLoadView (onlyHooks H exec)"
  using assms by (simp add: keepsLoadView_def onlyHooks_def)

lemma loadSetting_loadHooks:
  assumes "keepsLoadView exec"
  shows "loadHooks (pluginList (loadSetting exec pn k v st)) = loadHooks (pluginList st)"
proof -
  have "loadHooks (exec f i (pluginList (setValue j k v st))) = loadHooks (pluginList st)" for f i j
    using assms views_loadHooks [of "exec f i (pluginList (setValue j k v st))" "pluginList (setValue j k v st)"]
    by (simp add: keepsLoadView_def loadHooks_setValue)
  then show ?thesis
    by (simp add: loadSetting_def callFn_def Let_def loadHooks_setValue split: option.splits)
qed

lemma loadSetting_onlyHooks:
  assumes "set (loadHooks (pluginList st)) \<subseteq> set H"
  shows "loadSetting (onlyHooks H exec) pn k v st = loadSetting exec pn k v st"
proof (cases "findPlugin (pluginList st) pn")
  case None
  then show ?thesis by (simp add: loadSetting_def)
next
  case (Some i)
  from findPlugin_Some [OF this] have i: "i < length (pluginList st)" by simp
  show ?thesis
  proof (cases "map_of (settings (pluginList st ! i)) k")
    case None
    with Some show ?thesis by (simp add: loadSetting_def)
  next
    case s: (Some s)
    show ?thesis
    proof (cases "onLoaded s")
      case None
      with Some s show ?thesis by (simp add: loadSetting_def Let_def)
    next
      case f: (Some f)
      from loadHooks_mem [OF i s f] assms have "f \<in> set H" by blast
      then have "callFn (onlyHooks H exec) f i st' = callFn exec f i st'" for st'
        by (simp add: callFn_def onlyHooks_def)
      with Some s f show ?thesis by (simp add: loadSetting_def Let_def)
    qed
  qed
qed

lemma loadSettingData_onlyHooks:
  assumes "keepsLoadView (onlyHooks H exec)"
      and "set (loadHooks (pluginList st)) \<subseteq> set H"
  shows "loadSettingData (onlyHooks H exec) pn d st = loadSettingData exec pn d st
       \<and> loadHooks (pluginList (loadSettingData exec pn d st)) = loadHooks (pluginList st)"
  using assms(2)
proof (induction d arbitrary: st)
  case Nil
  then show ?case by simp
next
  case (Cons e d)
  obtain k v where e: "e = (k, v)" by (cases e)
  have same: "loadSetting (onlyHooks H exec) pn k v st = loadSetting exec pn k v st"
    by (rule loadSetting_onlyHooks [OF Cons.prems])
  have h: "loadHooks (pluginList (loadSetting exec pn k v st)) = loadHooks (pluginList st)"
    using loadSetting_loadHooks [OF assms(1), of pn k v st] same by simp
  with Cons.prems have "set (loadHooks (pluginList (loadSetting exec pn k v st))) \<subseteq> set H"
    by simp
  from Cons.IH [OF this] h same show ?case
    by (simp add: e)
qed

lemma loadRecord_onlyHooks:
  assumes "keepsLoadView (onlyHooks H exec)"
      and "set (loadHooks (pluginList st)) \<subseteq> set H"
  shows "loadRecord (onlyHooks H exec) r st = loadRecord exec r st
       \<and> loadHooks (pluginList (loadRecord exec r st)) = loadHooks (pluginList st)"
  using assms(2)
proof (induction r arbitrary: st)
  case Nil
  then show ?case by simp
next
  case (Cons e r)
  obtain pn d where e: "e = (pn, d)" by (cases e)
  from loadSettingData_onlyHooks [OF assms(1) Cons.prems, of pn d]
  have same: "loadSettingData (onlyHooks H exec) pn d st = loadSettingData exec pn d st"
    and h: "loadHooks (pluginList (loadSettingData exec pn d st)) = loadHooks (pluginList st)"
    by simp_all
  with Cons.prems have "set (loadHooks (pluginList (loadSettingData exec pn d st))) \<subseteq> set H"
    by simp
  from Cons.IH [OF this] h same show ?case
    by (simp add: e)
qed

lemma loadPhase_onlyHooks:
  assumes "keepsLoadView (onlyHooks H exec)"
      and "set (loadHooks (pluginList st)) \<subseteq> set H"
  shows "loadPhase (onlyHooks H exec) st = loadPhase exec st"
    and "loadHooks (pluginList (loadPhase exec st)) = loadHooks (pluginList st)"
proof -
  let ?st0 = "st\<lparr>databaseSettings := database st (username st)\<rparr>"
  have h: "set (loadHooks (pluginList ?st0)) \<subseteq> set H"
    using assms(2) by simp
  have "loadPhase (onlyHooks H exec) st = loadPhase exec st
      \<and> loadHooks (pluginList (loadPhase exec st)) = loadHooks (pluginList st)"
  proof (cases "database st (username st)")
    case None
    then show ?thesis by (simp add: loadPhase_def Let_def)
  next
    case (Some r)
    with loadRecord_onlyHooks [OF assms(1) h, of r] show ?thesis
      by (simp add: loadPhase_def Let_def)
  qed
  then show "loadPhase (onlyHooks H exec) st = loadPhase exec st"
    and "loadHooks (pluginList (loadPhase exec st)) = loadHooks (pluginList st)"
    by simp_all
qed

lemma registerPlugins_onlyHooks:
  assumes "keepsLoadView (onlyHooks H exec)"
      and "set (loadHooks (pluginList st)) \<subseteq> set H"
  shows "registerPlugins (onlyHooks H exec) st = registerPlugins exec st"
  by (simp add: registerPlugins_def loadPhase_onlyHooks(1) [OF assms])

lemma registerStep_views:
  assumes "registerStep i st = Inr st'"
  shows "map loadView (pluginList st') = map loadView (pluginList st)"
proof -
  have "map loadView ((pluginList st)[i := makeSettingsReactive (pluginList st ! i)])
      = map loadView (pluginList st)"
    by (rule map_update_same) (rule makeSettingsReactive_loadView)
  then show ?thesis
    using assms
    by (auto simp: registerStep_def storePluginSettings_def createPluginSettings_def Let_def
          split: option.splits)
qed

lemma registerLoop_views:
  assumes "registerLoop is st = Inr st'"
  shows "map loadView (pluginList st') = map loadView (pluginList st)"
  using assms
proof (induction "is" arbitrary: st)
  case Nil
  then show ?case by simp
next
  case (Cons i "is")
  from Cons.prems obtain st1 where s: "registerStep i st = Inr st1" "registerLoop is st1 = Inr st'"
    by (auto split: sum.splits)
  from Cons.IH [OF s(2)] registerStep_views [OF s(1)] show ?case by simp
qed

lemma registerPlugins_loadHooks:
  assumes "keepsLoadView (onlyHooks H exec)"
      and "set (loadHooks (pluginList st)) \<subseteq> set H"
      and "registerPlugins exec st = Inr st1"
  shows "loadHooks (pluginList st1) = loadHooks (pluginList st)"
proof -
  from assms(3) have "registerLoop [0..<length (pluginList (loadPhase exec st))] (loadPhase exec st) = Inr st1"
    by (simp add: registerPlugins_def Let_def)
  from views_loadHooks [OF registerLoop_views [OF this]] loadPhase_onlyHooks(2) [OF assms(1,2)]
  show ?thesis by simp
qed

text \<open>The two runs of the sample managers, evaluated.\<close>

lemma counting_first: "registerPlugins countingExec countingManager = Inr countedOnce"
  by (simp add: registerPlugins_def loadPhase_def countingManager_def freshManager_def counter_def
      loadSetting_def setValue_def callFn_def countingExec_def bump_def setSettingValue_def
      noopSetting_def Let_def registerStep_def storePluginSettings_def snapshot_def
      makeSettingsReactive_def createPluginSettings_def countedOnce_def)

lemma counting_second: "registerPlugins countingExec countedOnce = Inr countedTwice"
  by (simp add: registerPlugins_def loadPhase_def countingManager_def freshManager_def counter_def
      loadSetting_def setValue_def callFn_def countingExec_def bump_def setSettingValue_def
      noopSetting_def Let_def registerStep_def storePluginSettings_def snapshot_def
      makeSettingsReactive_def createPluginSettings_def countedOnce_def countedTwice_def)

lemma loading_first: "registerPlugins bumpOnChange countingManager = Inr loadedOnce"
  by (simp add: registerPlugins_def loadPhase_def countingManager_def freshManager_def counter_def
      loadSetting_def setValue_def callFn_def bumpOnChange_def setSettingValue_def
      noopSetting_def Let_def registerStep_def storePluginSettings_def snapshot_def
      makeSettingsReactive_def createPluginSettings_def loadedOnce_def)

lemma loading_second: "registerPlugins bumpOnChange loadedOnce = Inr loadedTwice"
  by (simp add: registerPlugins_def loadPhase_def countingManager_def freshManager_def counter_def
      loadSetting_def setValue_def callFn_def bumpOnChange_def setSettingValue_def
      noopSetting_def Let_def registerStep_def storePluginSettings_def snapshot_def
      makeSettingsReactive_def createPluginSettings_def loadedOnce_def loadedTwice_def)

text \<open>
  C8 (as amended). Let no \<^verbatim>\<open>onLoaded\<close> hook of a registered plugin change a plugin's
  name, setting keys, values or hooks, whatever the other callbacks do; let plugin names and
  the setting keys of each plugin be distinct, every plugin have its \<open>enable\<close> setting, the
  main view exist and the stored record have no repeated plugin name. Then registerPlugins
  returns, a second registerPlugins on the resulting state returns too, and the second run
  leaves every plugin's name and the value under each of its setting keys as the first run
  left them, and the store and the held record identical.
\<close>

theorem reconciliation_idempotent:
  assumes "\<forall>f \<in> set (loadHooks (pluginList st)). \<forall>i qs. map loadView (exec f i qs) = map loadView qs"
      and "distinct (map pluginName (pluginList st))"
      and "\<forall>p \<in> set (pluginList st). distinct (map fst (settings p))"
      and "\<forall>p \<in> set (pluginList st). map_of (settings p) ''enable'' \<noteq> None"
      and "mainSettingsView st \<noteq> None"
      and "\<forall>r. database st (username st) = Some r \<longrightarrow> distinct (map fst r)"
  shows "\<exists>st1 st2. registerPlugins exec st = Inr st1
           \<and> registerPlugins exec st1 = Inr st2
           \<and> map (\<lambda>p. (pluginName p, map (\<lambda>(key, setting). (key, value_s setting)) (settings p))) (pluginList st2)
               = map (\<lambda>p. (pluginName p, map (\<lambda>(key, setting). (key, value_s setting)) (settings p))) (pluginList st1)
           \<and> database st2 = database st1
           \<and> databaseSettings st2 = databaseSettings st1"
proof -
  let ?H = "loadHooks (pluginList st)"
  let ?e = "onlyHooks ?H exec"
  have k: "keepsLoadView ?e"
    by (rule onlyHooks_keeps [OF assms(1)])
  from two_runs_keeping_view [OF k assms(2-6)] obtain st1 st2 where r:
    "registerPlugins ?e st = Inr st1" "registerPlugins ?e st1 = Inr st2"
    "map (\<lambda>p. (pluginName p, snapshot p)) (pluginList st2)
       = map (\<lambda>p. (pluginName p, snapshot p)) (pluginList st1)"
    "database st2 = database st1" "databaseSettings st2 = databaseSettings st1"
    by blast
  have h0: "set (loadHooks (pluginList st)) \<subseteq> set ?H"
    by simp
  have one: "registerPlugins exec st = Inr st1"
    using registerPlugins_onlyHooks [OF k h0] r(1) by simp
  have h1: "set (loadHooks (pluginList st1)) \<subseteq> set ?H"
    using registerPlugins_loadHooks [OF k h0 one] by simp
  have two: "registerPlugins exec st1 = Inr st2"
    using registerPlugins_onlyHooks [OF k h1] r(2) by simp
  from r(3) have r3:
    "map (\<lambda>p. (pluginName p, map (\<lambda>(key, setting). (key, value_s setting)) (settings p))) (pluginList st2)
       = map (\<lambda>p. (pluginName p, map (\<lambda>(key, setting). (key, value_s setting)) (settings p))) (pluginList st1)"
    by (simp only: snapshot_def)
  have "registerPlugins exec st = Inr st1
           \<and> registerPlugins exec st1 = Inr st2
           \<and> map (\<lambda>p. (pluginName p, map (\<lambda>(key, setting). (key, value_s setting)) (settings p))) (pluginList st2)
               = map (\<lambda>p. (pluginName p, map (\<lambda>(key, setting). (key, value_s setting)) (settings p))) (pluginList st1)
           \<and> database st2 = database st1
           \<and> databaseSettings st2 = databaseSettings st1"
    by (intro conjI one two r3 r(4) r(5))
  then show ?thesis
    by (intro exI)
qed

theorem reconciliation_idempotent_witness:
  "registerPlugins bumpOnChange countingManager = Inr loadedOnce
   \<and> registerPlugins bumpOnChange loadedOnce = Inr loadedTwice
   \<and> map (\<lambda>p. (pluginName p, map (\<lambda>(key, setting). (key, value_s setting)) (settings p))) (pluginList loadedTwice)
       = map (\<lambda>p. (pluginName p, map (\<lambda>(key, setting). (key, value_s setting)) (settings p))) (pluginList loadedOnce)
   \<and> database loadedTwice = database loadedOnce
   \<and> databaseSettings loadedTwice = databaseSettings loadedOnce
   \<and> map (\<lambda>p. (pluginName p, map (\<lambda>(key, setting). (key, value_s setting)) (settings p))) (pluginList loadedOnce)
       = [(''Counter'', [(''enable'', VBool True), (''count'', VNum (Num 1))])]
   \<and> database loadedOnce ''player''
       = Some [(''Counter'', [(''enable'', VBool True), (''count'', VNum (Num 1))]),
               (''Removed'', [(''enable'', VBool False)])]
   \<and> loadHooks (pluginList countingManager) = [''counted'']
   \<and> bumpOnChange ''counted'' 0 [counter] = [counter]
   \<and> bumpOnChange ''noop'' 0 [counter] = [setSettingValue ''count'' (VNum (Num 1)) counter]"
proof -
  have ps: "pluginList countingManager = [counter]"
    by (simp add: countingManager_def freshManager_def)
  have hs: "loadHooks (pluginList countingManager) = [''counted'']"
    by (simp add: ps loadHooks_def counter_def noopSetting_def)
  have h: "\<forall>f \<in> set (loadHooks (pluginList countingManager)).
             \<forall>i qs. map loadView (bumpOnChange f i qs) = map loadView qs"
    by (simp add: hs bumpOnChange_def)
  have n: "distinct (map pluginName (pluginList countingManager))"
    by (simp add: ps)
  have d: "\<forall>p \<in> set (pluginList countingManager). distinct (map fst (settings p))"
    by (simp add: ps counter_def)
  have e: "\<forall>p \<in> set (pluginList countingManager). map_of (settings p) ''enable'' \<noteq> None"
    by (simp add: ps counter_def)
  have m: "mainSettingsView countingManager \<noteq> None"
    by (simp add: countingManager_def freshManager_def)
  have r: "\<forall>r. database countingManager (username countingManager) = Some r \<longrightarrow> distinct (map fst r)"
    by (auto simp: countingManager_def freshManager_def)
  from reconciliation_idempotent [OF h n d e m r] obtain st1 st2 where t:
    "registerPlugins bumpOnChange countingManager = Inr st1"
    "registerPlugins bumpOnChange st1 = Inr st2"
    "map (\<lambda>p. (pluginName p, map (\<lambda>(key, setting). (key, value_s setting)) (settings p))) (pluginList st2)
       = map (\<lambda>p. (pluginName p, map (\<lambda>(key, setting). (key, value_s setting)) (settings p))) (pluginList st1)"
    "database st2 = database st1" "databaseSettings st2 = databaseSettings st1"
    by blast
  from t(1) have s1: "st1 = loadedOnce"
    by (simp add: loading_first)
  from t(2) have s2: "st2 = loadedTwice"
    by (simp add: s1 loading_second)
  have a: "map (\<lambda>p. (pluginName p, map (\<lambda>(key, setting). (key, value_s setting)) (settings p))) (pluginList loadedOnce)
       = [(''Counter'', [(''enable'', VBool True), (''count'', VNum (Num 1))])]"
    by (simp add: loadedOnce_def makeSettingsReactive_def setSettingValue_def counter_def noopSetting_def)
  have b: "database loadedOnce ''player''
       = Some [(''Counter'', [(''enable'', VBool True), (''count'', VNum (Num 1))]),
               (''Removed'', [(''enable'', VBool False)])]"
    by (simp add: loadedOnce_def)
  have c: "bumpOnChange ''counted'' 0 [counter] = [counter]"
    by (simp add: bumpOnChange_def)
  have c': "bumpOnChange ''noop'' 0 [counter] = [setSettingValue ''count'' (VNum (Num 1)) counter]"
    by (simp add: bumpOnChange_def bump_def counter_def noopSetting_def)
  show ?thesis
    using t(3,4,5) unfolding s1 s2
    by (intro conjI loading_first loading_second a b hs c c')
qed

text \<open>
  C8 as stated covers every plugin. The hook of the counting plugin adds one to the value
  it is loaded with: the first run loads 1 and leaves 2 in memory and in the store, the
  second run loads 2 and leaves 3.
\<close>

theorem rerun_counts_again:
  "registerPlugins countingExec countingManager = Inr countedOnce
   \<and> registerPlugins countingExec countedOnce = Inr countedTwice
   \<and> map_option value_s (getSetting countedOnce 0 ''count'') = Some (VNum (Num 2))
   \<and> map_option value_s (getSetting countedTwice 0 ''count'') = Some (VNum (Num 3))
   \<and> persisted countedOnce ''player'' ''Counter'' = Some [(''enable'', VBool True), (''count'', VNum (Num 2))]
   \<and> persisted countedTwice ''player'' ''Counter'' = Some [(''enable'', VBool True), (''count'', VNum (Num 3))]"
proof -
  have a: "map_option value_s (getSetting countedOnce 0 ''count'') = Some (VNum (Num 2))"
    by (simp add: countedOnce_def getSetting_def makeSettingsReactive_def setSettingValue_def
        counter_def noopSetting_def)
  have b: "map_option value_s (getSetting countedTwice 0 ''count'') = Some (VNum (Num 3))"
    by (simp add: countedTwice_def getSetting_def makeSettingsReactive_def setSettingValue_def
        counter_def noopSetting_def)
  have c: "persisted countedOnce ''player'' ''Counter'' = Some [(''enable'', VBool True), (''count'', VNum (Num 2))]"
    by (simp add: persisted_def countedOnce_def)
  have d: "persisted countedTwice ''player'' ''Counter'' = Some [(''enable'', VBool True), (''count'', VNum (Num 3))]"
    by (simp add: persisted_def countedTwice_def)
  show ?thesis
    by (intro conjI counting_first counting_second a b c d)
qed

section \<open>What the load phase does to each stored entry\<close>

lemma loadSettingData_fold:
  "loadSettingData exec pn d st = fold (\<lambda>(pn, k, v). loadSetting exec pn k v) (map (\<lambda>(k, v). (pn, k, v)) d) st"
  by (induction d arbitrary: st) auto

lemma loadRecord_fold:
  "loadRecord exec r st = fold (\<lambda>(pn, k, v). loadSetting exec pn k v) (entries r) st"
proof (induction r arbitrary: st)
  case Nil
  then show ?case by (simp add: entries_def)
next
  case (Cons e r)
  obtain pn d where e: "e = (pn, d)" by (cases e)
  have "entries (e # r) = map (\<lambda>(k, v). (pn, k, v)) d @ entries r"
    by (simp add: entries_def e)
  then show ?case
    using Cons.IH by (simp add: e loadSettingData_fold)
qed

lemma entries_mem:
  "(pn, k, v) \<in> set (entries r) \<longleftrightarrow> (\<exists>d. (pn, d) \<in> set r \<and> (k, v) \<in> set d)"
  by (auto simp: entries_def)

lemma entries_distinct:
  assumes "objectKeys r"
  shows "distinct (map (\<lambda>(pn, k, v). (pn, k)) (entries r))"
  using assms
proof (induction r)
  case Nil
  then show ?case by (simp add: entries_def)
next
  case (Cons e r)
  obtain pn d where e: "e = (pn, d)" by (cases e)
  from Cons.prems have ok: "objectKeys r" and dd: "distinct (map fst d)" and fresh: "pn \<notin> fst ` set r"
    by (auto simp: objectKeys_def e)
  have split: "entries (e # r) = map (\<lambda>(k, v). (pn, k, v)) d @ entries r"
    by (simp add: entries_def e)
  have "map (\<lambda>(pn, k, v). (pn, k)) (map (\<lambda>(k, v). (pn, k, v)) d) = map (Pair pn) (map fst d)"
    by (simp add: comp_def case_prod_unfold)
  then have d1: "distinct (map (\<lambda>(pn, k, v). (pn, k)) (map (\<lambda>(k, v). (pn, k, v)) d))"
    using dd by (simp add: distinct_map inj_on_def)
  have d2: "set (map (\<lambda>(pn, k, v). (pn, k)) (map (\<lambda>(k, v). (pn, k, v)) d))
              \<inter> set (map (\<lambda>(pn, k, v). (pn, k)) (entries r)) = {}"
    using fresh by (force simp: entries_mem)
  show ?case
    using Cons.IH [OF ok] d1 d2 by (simp only: split map_append distinct_append)
qed

lemma loadView_hook:
  assumes "loadView p = loadView q"
  shows "map_option onLoaded (map_of (settings p) k) = map_option onLoaded (map_of (settings q) k)"
proof -
  have "map (\<lambda>(k, v, h). (k, h)) (snd (loadView p)) = map (\<lambda>(k, v, h). (k, h)) (snd (loadView q))"
    using assms by simp
  then have "map (\<lambda>(k, s). (k, onLoaded s)) (settings p) = map (\<lambda>(k, s). (k, onLoaded s)) (settings q)"
    by (simp add: loadView_def comp_def case_prod_unfold)
  then have "map_of (map (\<lambda>(k, s). (k, onLoaded s)) (settings p)) k
           = map_of (map (\<lambda>(k, s). (k, onLoaded s)) (settings q)) k"
    by simp
  then show ?thesis
    by (simp add: map_of_map)
qed

lemma views_getSetting:
  assumes "map loadView (pluginList st') = map loadView (pluginList st)"
  shows "map_option value_s (getSetting st' j k) = map_option value_s (getSetting st j k)
       \<and> map_option onLoaded (getSetting st' j k) = map_option onLoaded (getSetting st j k)"
proof (cases "j < length (pluginList st)")
  case True
  from views_nth [OF assms True] have v: "loadView (pluginList st' ! j) = loadView (pluginList st ! j)" .
  show ?thesis
    using True views_length [OF assms] loadView_value [OF v] loadView_hook [OF v]
    by (simp add: getSetting_def)
next
  case False
  then show ?thesis
    using views_length [OF assms] by (simp add: getSetting_def)
qed

lemma map_entry_value:
  "map_option value_s (map_of (AList.map_entry k (\<lambda>s. s\<lparr>value_s := v\<rparr>) xs) k')
     = (if k' = k \<and> map_of xs k \<noteq> None then Some v else map_option value_s (map_of xs k'))"
  by (simp add: AList.map_of_map_entry split: option.splits)

lemma map_entry_hook:
  "map_option onLoaded (map_of (AList.map_entry k (\<lambda>s. s\<lparr>value_s := v\<rparr>) xs) k')
     = map_option onLoaded (map_of xs k')"
  by (simp add: AList.map_of_map_entry split: option.splits)

lemma setSettingValue_value:
  "map_option value_s (map_of (settings (setSettingValue k v p)) k')
     = (if k' = k \<and> map_of (settings p) k \<noteq> None then Some v
        else map_option value_s (map_of (settings p) k'))"
proof -
  have "settings (setSettingValue k v p) = AList.map_entry k (\<lambda>s. s\<lparr>value_s := v\<rparr>) (settings p)"
    by (simp add: setSettingValue_def)
  then show ?thesis
    by (simp only: map_entry_value)
qed

lemma setSettingValue_hook:
  "map_option onLoaded (map_of (settings (setSettingValue k v p)) k')
     = map_option onLoaded (map_of (settings p) k')"
proof -
  have "settings (setSettingValue k v p) = AList.map_entry k (\<lambda>s. s\<lparr>value_s := v\<rparr>) (settings p)"
    by (simp add: setSettingValue_def)
  then show ?thesis
    by (simp only: map_entry_hook)
qed

lemma getSetting_setValue_cases:
  "getSetting (setValue i k v st) j k'
     = (if j = i then (if i < length (pluginList st)
                       then map_of (settings (setSettingValue k v (pluginList st ! i))) k' else None)
        else getSetting st j k')"
  by (simp add: getSetting_def setValue_def)

lemma setValue_getSetting:
  "map_option value_s (getSetting (setValue i k v st) j k')
     = (if j = i \<and> k' = k \<and> getSetting st i k \<noteq> None then Some v
        else map_option value_s (getSetting st j k'))"
  "map_option onLoaded (getSetting (setValue i k v st) j k') = map_option onLoaded (getSetting st j k')"
proof -
  show "map_option value_s (getSetting (setValue i k v st) j k')
     = (if j = i \<and> k' = k \<and> getSetting st i k \<noteq> None then Some v
        else map_option value_s (getSetting st j k'))"
  proof (cases "j = i \<and> i < length (pluginList st)")
    case True
    then have "getSetting (setValue i k v st) j k' = map_of (settings (setSettingValue k v (pluginList st ! i))) k'"
      by (simp add: getSetting_setValue_cases)
    then have "map_option value_s (getSetting (setValue i k v st) j k')
        = (if k' = k \<and> map_of (settings (pluginList st ! i)) k \<noteq> None then Some v
           else map_option value_s (map_of (settings (pluginList st ! i)) k'))"
      by (simp only: setSettingValue_value)
    moreover have "getSetting st i kk = map_of (settings (pluginList st ! i)) kk" for kk
      using True by (simp add: getSetting_def)
    ultimately show ?thesis
      using True by simp
  next
    case False
    then have "getSetting (setValue i k v st) j k' = getSetting st j k'"
      by (auto simp: getSetting_def setValue_def)
    moreover have "\<not> (j = i \<and> k' = k \<and> getSetting st i k \<noteq> None)"
      using False by (auto simp: getSetting_def)
    ultimately show ?thesis
      by (simp only: if_False)
  qed
  show "map_option onLoaded (getSetting (setValue i k v st) j k') = map_option onLoaded (getSetting st j k')"
  proof (cases "j = i \<and> i < length (pluginList st)")
    case True
    then have "getSetting (setValue i k v st) j k' = map_of (settings (setSettingValue k v (pluginList st ! i))) k'"
      by (simp add: getSetting_setValue_cases)
    then have "map_option onLoaded (getSetting (setValue i k v st) j k')
        = map_option onLoaded (map_of (settings (pluginList st ! i)) k')"
      by (simp only: setSettingValue_hook)
    moreover have "getSetting st i k' = map_of (settings (pluginList st ! i)) k'"
      using True by (simp add: getSetting_def)
    ultimately show ?thesis
      using True by simp
  next
    case False
    then have "getSetting (setValue i k v st) j k' = getSetting st j k'"
      by (auto simp: getSetting_def setValue_def)
    then show ?thesis
      by (simp only:)
  qed
qed

lemma callFn_getSetting:
  assumes "keepsLoadView exec"
  shows "map_option value_s (getSetting (callFn exec f i st) j k) = map_option value_s (getSetting st j k)
       \<and> map_option onLoaded (getSetting (callFn exec f i st) j k) = map_option onLoaded (getSetting st j k)"
proof -
  have "map loadView (pluginList (callFn exec f i st)) = map loadView (pluginList st)"
    using assms by (simp add: callFn_def keepsLoadView_def)
  then show ?thesis
    by (rule views_getSetting)
qed

lemma loadSetting_value:
  assumes "keepsLoadView exec"
  shows "map_option value_s (getSetting (loadSetting exec pn k v st) j k')
     = (if v \<noteq> VUndefined \<and> findPlugin (pluginList st) pn = Some j \<and> k' = k \<and> getSetting st j k \<noteq> None
        then Some v else map_option value_s (getSetting st j k'))"
proof (cases "v = VUndefined")
  case True
  then show ?thesis by (simp add: loadSetting_def)
next
  case False
  show ?thesis
  proof (cases "findPlugin (pluginList st) pn")
    case None
    with False show ?thesis by (simp add: loadSetting_def)
  next
    case (Some i)
    from findPlugin_Some [OF this] have i: "i < length (pluginList st)" by simp
    then have g: "getSetting st i k = map_of (settings (pluginList st ! i)) k"
      by (simp add: getSetting_def)
    show ?thesis
    proof (cases "getSetting st i k")
      case None
      with False Some g show ?thesis by (auto simp: loadSetting_def)
    next
      case s: (Some s)
      let ?st1 = "setValue i k v st"
      have r: "loadSetting exec pn k v st
                 = (case onLoaded s of None \<Rightarrow> ?st1 | Some f \<Rightarrow> callFn exec f i ?st1)"
        using False Some s g by (simp add: loadSetting_def Let_def)
      have "map_option value_s (getSetting (loadSetting exec pn k v st) j k')
              = map_option value_s (getSetting ?st1 j k')"
        using callFn_getSetting [OF assms] by (simp add: r split: option.splits)
      also have "\<dots> = (if j = i \<and> k' = k \<and> getSetting st i k \<noteq> None then Some v
                        else map_option value_s (getSetting st j k'))"
        by (rule setValue_getSetting(1))
      finally show ?thesis
        using False Some by auto
    qed
  qed
qed

lemma loadSetting_hook:
  assumes "keepsLoadView exec"
  shows "map_option onLoaded (getSetting (loadSetting exec pn k v st) j k')
           = map_option onLoaded (getSetting st j k')"
  using callFn_getSetting [OF assms] setValue_getSetting(2)
  by (simp add: loadSetting_def Let_def split: option.splits)

lemma loadSetting_find:
  assumes "keepsLoadView exec"
  shows "findPlugin (pluginList (loadSetting exec pn k v st)) n = findPlugin (pluginList st) n"
  by (rule findPlugin_names) (rule settingKeys_names [OF loadSetting_settingKeys [OF assms]])

lemma loadSetting_trace:
  "trace (loadSetting exec pn k v st) = trace st @
     (if v = VUndefined then []
      else case findPlugin (pluginList st) pn of
        None \<Rightarrow> []
      | Some i \<Rightarrow>
          (case map_option onLoaded (getSetting st i k) of
             Some (Some f) \<Rightarrow> [EvCall f i]
           | _ \<Rightarrow> []))"
proof (cases "findPlugin (pluginList st) pn")
  case None
  then show ?thesis by (simp add: loadSetting_def)
next
  case (Some i)
  from findPlugin_Some [OF this] have "getSetting st i k = map_of (settings (pluginList st ! i)) k"
    by (simp add: getSetting_def)
  with Some show ?thesis
    by (simp add: loadSetting_def Let_def setValue_def callFn_def split: option.splits)
qed

lemma loadAll_find:
  assumes "keepsLoadView exec"
  shows "findPlugin (pluginList (fold (\<lambda>(pn, k, v). loadSetting exec pn k v) es st)) n
           = findPlugin (pluginList st) n"
  by (induction es arbitrary: st) (auto simp: loadSetting_find [OF assms])

lemma loadAll_hook:
  assumes "keepsLoadView exec"
  shows "map_option onLoaded (getSetting (fold (\<lambda>(pn, k, v). loadSetting exec pn k v) es st) j k')
           = map_option onLoaded (getSetting st j k')"
  by (induction es arbitrary: st) (auto simp: loadSetting_hook [OF assms])

lemma loadAll_trace:
  "\<exists>evs. trace (fold (\<lambda>(pn, k, v). loadSetting exec pn k v) es st) = trace st @ evs"
proof (induction es arbitrary: st)
  case Nil
  then show ?case by simp
next
  case (Cons e es)
  obtain pn k v where e: "e = (pn, k, v)" by (cases e)
  from loadSetting_trace [of exec pn k v st] obtain evs1
    where t1: "trace (loadSetting exec pn k v st) = trace st @ evs1" by blast
  from Cons.IH [of "loadSetting exec pn k v st"] obtain evs2
    where "trace (fold (\<lambda>(pn, k, v). loadSetting exec pn k v) es (loadSetting exec pn k v st))
             = trace (loadSetting exec pn k v st) @ evs2" by blast
  with t1 e show ?case by simp
qed

lemma loadAll_frame:
  assumes "keepsLoadView exec"
      and "\<forall>(pn, k, v) \<in> set es. \<not> (v \<noteq> VUndefined \<and> findPlugin (pluginList st) pn = Some j \<and> k = k')"
  shows "map_option value_s (getSetting (fold (\<lambda>(pn, k, v). loadSetting exec pn k v) es st) j k')
           = map_option value_s (getSetting st j k')"
  using assms(2)
proof (induction es arbitrary: st)
  case Nil
  then show ?case by simp
next
  case (Cons e es)
  obtain pn k v where e: "e = (pn, k, v)" by (cases e)
  let ?st1 = "loadSetting exec pn k v st"
  have one: "map_option value_s (getSetting ?st1 j k') = map_option value_s (getSetting st j k')"
    using Cons.prems e by (auto simp: loadSetting_value [OF assms(1)])
  have "\<forall>(pn, k, v) \<in> set es. \<not> (v \<noteq> VUndefined \<and> findPlugin (pluginList ?st1) pn = Some j \<and> k = k')"
    using Cons.prems by (simp add: loadSetting_find [OF assms(1)])
  from Cons.IH [OF this] one e show ?case by simp
qed

lemma loadAll_hit:
  assumes "keepsLoadView exec"
      and "distinct (map (\<lambda>(pn, k, v). (pn, k)) es)"
      and "(pn, k, v) \<in> set es"
      and "v \<noteq> VUndefined"
      and "findPlugin (pluginList st) pn = Some i"
      and "getSetting st i k \<noteq> None"
  shows "map_option value_s (getSetting (fold (\<lambda>(pn, k, v). loadSetting exec pn k v) es st) i k) = Some v"
  using assms(2,3,5,6)
proof (induction es arbitrary: st)
  case Nil
  then show ?case by simp
next
  case (Cons e es)
  obtain pn' k' v' where e: "e = (pn', k', v')" by (cases e)
  let ?st1 = "loadSetting exec pn' k' v' st"
  have find1: "findPlugin (pluginList ?st1) n = findPlugin (pluginList st) n" for n
    by (rule loadSetting_find [OF assms(1)])
  have dist: "distinct (map (\<lambda>(pn, k, v). (pn, k)) es)" and fresh: "(pn', k') \<notin> set (map (\<lambda>(pn, k, v). (pn, k)) es)"
    using Cons.prems(1) e by simp_all
  show ?case
  proof (cases "(pn, k, v) = e")
    case True
    then have same: "pn' = pn" "k' = k" "v' = v" using e by simp_all
    have one: "map_option value_s (getSetting ?st1 i k) = Some v"
      using Cons.prems(3,4) assms(4) same by (simp add: loadSetting_value [OF assms(1)])
    have none: "\<forall>(pn'', k'', v'') \<in> set es.
                  \<not> (v'' \<noteq> VUndefined \<and> findPlugin (pluginList ?st1) pn'' = Some i \<and> k'' = k)"
    proof (clarify)
      fix pn'' k'' v''
      assume m: "(pn'', k, v'') \<in> set es" and f: "findPlugin (pluginList ?st1) pn'' = Some i"
      from f have "findPlugin (pluginList st) pn'' = Some i" by (simp add: find1)
      from findPlugin_Some [OF this] findPlugin_Some [OF Cons.prems(3)] have "pn'' = pn" by simp
      with m have "(pn, k) \<in> set (map (\<lambda>(pn, k, v). (pn, k)) es)" by force
      with fresh same show False by simp
    qed
    from loadAll_frame [OF assms(1) none] one e show ?thesis by simp
  next
    case False
    with Cons.prems(2) have mem: "(pn, k, v) \<in> set es" by auto
    have f1: "findPlugin (pluginList ?st1) pn = Some i"
      using Cons.prems(3) by (simp add: find1)
    have "map_option value_s (getSetting ?st1 i k) \<noteq> None"
      using Cons.prems(4) by (auto simp: loadSetting_value [OF assms(1)])
    then have g1: "getSetting ?st1 i k \<noteq> None" by auto
    from Cons.IH [OF dist mem f1 g1] e show ?thesis by simp
  qed
qed

lemma loadAll_call:
  assumes "keepsLoadView exec"
      and "(pn, k, v) \<in> set es"
      and "v \<noteq> VUndefined"
      and "findPlugin (pluginList st) pn = Some i"
      and "map_option onLoaded (getSetting st i k) = Some (Some f)"
  shows "EvCall f i \<in> set (drop (length (trace st))
           (trace (fold (\<lambda>(pn, k, v). loadSetting exec pn k v) es st)))"
  using assms(2,4,5)
proof (induction es arbitrary: st)
  case Nil
  then show ?case by simp
next
  case (Cons e es)
  obtain pn' k' v' where e: "e = (pn', k', v')" by (cases e)
  let ?st1 = "loadSetting exec pn' k' v' st"
  let ?fin = "fold (\<lambda>(pn, k, v). loadSetting exec pn k v) es ?st1"
  from loadSetting_trace [of exec pn' k' v' st] obtain evs1
    where t1: "trace ?st1 = trace st @ evs1" by blast
  from loadAll_trace [of exec es ?st1] obtain evs2
    where t2: "trace ?fin = trace ?st1 @ evs2" by blast
  have fin: "fold (\<lambda>(pn, k, v). loadSetting exec pn k v) (e # es) st = ?fin"
    by (simp add: e)
  show ?case
  proof (cases "(pn, k, v) = e")
    case True
    then have same: "pn' = pn" "k' = k" "v' = v" using e by simp_all
    have "trace ?st1 = trace st @ [EvCall f i]"
      using loadSetting_trace [of exec pn k v st] assms(3) Cons.prems(2,3) same by simp
    with t2 have "trace ?fin = trace st @ EvCall f i # evs2" by simp
    then show ?thesis by (simp only: fin) simp
  next
    case False
    with Cons.prems(1) have mem: "(pn, k, v) \<in> set es" by auto
    have f1: "findPlugin (pluginList ?st1) pn = Some i"
      using Cons.prems(2) by (simp add: loadSetting_find [OF assms(1)])
    have h1: "map_option onLoaded (getSetting ?st1 i k) = Some (Some f)"
      using Cons.prems(3) by (simp add: loadSetting_hook [OF assms(1)])
    from Cons.IH [OF mem f1 h1] have "EvCall f i \<in> set (drop (length (trace ?st1)) (trace ?fin))" .
    then have "EvCall f i \<in> set evs2" using t2 by simp
    moreover have "drop (length (trace st)) (trace ?fin) = evs1 @ evs2"
      using t1 t2 by simp
    ultimately show ?thesis by (simp only: fin) simp
  qed
qed

lemma loadAll_skip:
  assumes "\<forall>(pn, k, v) \<in> set es. v \<noteq> VUndefined \<longrightarrow> valueAt (pluginList st) pn k = None"
  shows "fold (\<lambda>(pn, k, v). loadSetting exec pn k v) es st = st"
  using assms
proof (induction es)
  case Nil
  then show ?case by simp
next
  case (Cons e es)
  obtain pn k v where e: "e = (pn, k, v)" by (cases e)
  have "loadSetting exec pn k v st = st"
    using Cons.prems e by (auto simp: loadSetting_def valueAt_def split: option.splits)
  with Cons e show ?case by simp
qed

text \<open>
  When no callback changes a plugin's name, setting keys, values or hooks and the stored
  record has no repeated key, the load phase can also be read off its end state: a setting
  that a defined stored entry finds holds the stored value and its hook has been called; a
  setting that no defined stored entry names keeps its value.
\<close>

lemma load_end_state:
  assumes "keepsLoadView exec"
      and "database st (username st) = Some r"
      and "objectKeys r"
  shows "(\<forall>pn d k v i s.
            (pn, d) \<in> set r \<and> (k, v) \<in> set d \<and> v \<noteq> VUndefined
            \<and> findPlugin (pluginList st) pn = Some i \<and> getSetting st i k = Some s \<longrightarrow>
              map_option value_s (getSetting (loadPhase exec st) i k) = Some v
              \<and> (\<forall>f. onLoaded s = Some f \<longrightarrow>
                    EvCall f i \<in> set (drop (length (trace st)) (trace (loadPhase exec st)))))
       \<and> (\<forall>j k. (\<forall>d v. (pluginName (pluginList st ! j), d) \<in> set r \<and> (k, v) \<in> set d \<longrightarrow> v = VUndefined) \<longrightarrow>
              map_option value_s (getSetting (loadPhase exec st) j k)
                = map_option value_s (getSetting st j k))
       \<and> ((\<forall>pn d k v. (pn, d) \<in> set r \<and> (k, v) \<in> set d \<and> v \<noteq> VUndefined \<longrightarrow>
               valueAt (pluginList st) pn k = None) \<longrightarrow>
            loadPhase exec st = st\<lparr>databaseSettings := Some r\<rparr>)"
proof -
  let ?st0 = "st\<lparr>databaseSettings := Some r\<rparr>"
  let ?F = "\<lambda>(pn, k, v). loadSetting exec pn k v"
  have lp: "loadPhase exec st = fold ?F (entries r) ?st0"
    using assms(2) by (simp add: loadPhase_def Let_def loadRecord_fold)
  have st0: "pluginList ?st0 = pluginList st" "trace ?st0 = trace st"
    "getSetting ?st0 j k = getSetting st j k" for j k
    by (simp_all add: getSetting_def)
  have dist: "distinct (map (\<lambda>(pn, k, v). (pn, k)) (entries r))"
    by (rule entries_distinct [OF assms(3)])
  have hit: "map_option value_s (getSetting (loadPhase exec st) i k) = Some v
              \<and> (\<forall>f. onLoaded s = Some f \<longrightarrow>
                    EvCall f i \<in> set (drop (length (trace st)) (trace (loadPhase exec st))))"
    if "(pn, d) \<in> set r" "(k, v) \<in> set d" "v \<noteq> VUndefined"
      "findPlugin (pluginList st) pn = Some i" "getSetting st i k = Some s" for pn d k v i s
  proof -
    have mem: "(pn, k, v) \<in> set (entries r)"
      using that(1,2) by (auto simp: entries_mem)
    have f0: "findPlugin (pluginList ?st0) pn = Some i"
      using that(4) by (simp add: st0)
    have g0: "getSetting ?st0 i k \<noteq> None"
      using that(5) by (simp add: st0)
    have a: "map_option value_s (getSetting (loadPhase exec st) i k) = Some v"
      using loadAll_hit [OF assms(1) dist mem that(3) f0 g0] by (simp add: lp)
    have b: "EvCall f i \<in> set (drop (length (trace st)) (trace (loadPhase exec st)))"
      if "onLoaded s = Some f" for f
    proof -
      have "map_option onLoaded (getSetting ?st0 i k) = Some (Some f)"
        using \<open>getSetting st i k = Some s\<close> that by (simp add: st0)
      from loadAll_call [OF assms(1) mem \<open>v \<noteq> VUndefined\<close> f0 this] show ?thesis
        by (simp add: lp st0)
    qed
    from a b show ?thesis by blast
  qed
  have frame: "map_option value_s (getSetting (loadPhase exec st) j k)
                = map_option value_s (getSetting st j k)"
    if "\<forall>d v. (pluginName (pluginList st ! j), d) \<in> set r \<and> (k, v) \<in> set d \<longrightarrow> v = VUndefined" for j k
  proof -
    have "\<forall>(pn, k', v) \<in> set (entries r).
            \<not> (v \<noteq> VUndefined \<and> findPlugin (pluginList ?st0) pn = Some j \<and> k' = k)"
    proof (clarify)
      fix pn v
      assume m: "(pn, k, v) \<in> set (entries r)" and v: "v \<noteq> VUndefined"
        and f: "findPlugin (pluginList ?st0) pn = Some j"
      from f have "pluginName (pluginList st ! j) = pn"
        using findPlugin_Some [of "pluginList st" pn j] by (simp add: st0)
      moreover from m obtain d where "(pn, d) \<in> set r" "(k, v) \<in> set d"
        by (auto simp: entries_mem)
      ultimately show False
        using that v by blast
    qed
    from loadAll_frame [OF assms(1) this] show ?thesis
      by (simp add: lp st0)
  qed
  have skip: "loadPhase exec st = ?st0"
    if "\<forall>pn d k v. (pn, d) \<in> set r \<and> (k, v) \<in> set d \<and> v \<noteq> VUndefined \<longrightarrow>
               valueAt (pluginList st) pn k = None"
  proof -
    have "\<forall>(pn, k, v) \<in> set (entries r). v \<noteq> VUndefined \<longrightarrow> valueAt (pluginList ?st0) pn k = None"
    proof (clarify)
      fix pn k v
      assume "(pn, k, v) \<in> set (entries r)" and v: "v \<noteq> VUndefined"
      then obtain d where "(pn, d) \<in> set r" "(k, v) \<in> set d"
        by (auto simp: entries_mem)
      with that v have "valueAt (pluginList st) pn k = None" by blast
      then show "valueAt (pluginList ?st0) pn k = None" by (simp add: st0)
    qed
    from loadAll_skip [OF this] show ?thesis
      by (simp add: lp)
  qed
  show ?thesis
    using hit frame skip by blast
qed

text \<open>The end state of the load phase for the returning user of the sample data.\<close>

lemma load_end_state_sample:
  "map_option value_s (getSetting (loadPhase noEffect returningManager) 0 ''mode'') = Some (VStr ''b'')
   \<and> EvCall ''modeLoaded'' 0
       \<in> set (drop (length (trace returningManager)) (trace (loadPhase noEffect returningManager)))
   \<and> map_option value_s (getSetting (loadPhase noEffect returningManager) 0 ''size'') = Some (VNum (Num 7))
   \<and> map_option value_s (getSetting (loadPhase noEffect returningManager) 0 ''label'') = Some (VStr ''hp'')
   \<and> map_option value_s (getSetting (loadPhase noEffect returningManager) 1 ''volume'') = Some (VNum (Num 50))"
proof -
  let ?d = "[(''size'', VNum (Num 7)), (''mode'', VStr ''b''), (''label'', VUndefined),
           (''retired'', VBool False)]"
  let ?r = "[(''Nameplates'', ?d), (''Removed'', [(''enable'', VBool False)])]"
  let ?mode = "noopSetting\<lparr>text_s := ''Mode'', type_s := Combobox, value_s := VStr ''z'',
            callback := ''modeChanged'', onLoaded := Some ''modeLoaded'',
            validation := Some (\<lambda>v. v = VStr ''a''),
            options := Some [VStr ''a'', VStr ''b'']\<rparr>"
  let ?size = "noopSetting\<lparr>text_s := ''Size'', type_s := Range, value_s := VNum (Num 5),
            callback := ''resize'', min_s := Some (Num 0), max_s := Some (Num 10)\<rparr>"
  have k: "keepsLoadView noEffect"
    by (simp add: keepsLoadView_def noEffect_def)
  have db: "database returningManager (username returningManager) = Some ?r"
    by (simp add: returningManager_def freshManager_def)
  have ok: "objectKeys ?r"
    by (simp add: objectKeys_def)
  have ps: "pluginList returningManager = [nameplates, idleAlert]"
    by (simp add: returningManager_def freshManager_def)
  have f: "findPlugin (pluginList returningManager) ''Nameplates'' = Some 0"
    by (simp add: ps nameplates_def modeSetting_def)
  have n: "pluginName nameplates = ''Nameplates''" "pluginName idleAlert = ''IdleAlert''"
    by (simp_all add: nameplates_def modeSetting_def idleAlert_def lockedEnable_def)
  have gm: "getSetting returningManager 0 ''mode'' = Some ?mode"
    by (simp add: getSetting_def ps nameplates_def modeSetting_def)
  have gs: "getSetting returningManager 0 ''size'' = Some ?size"
    by (simp add: getSetting_def ps nameplates_def modeSetting_def)
  have gl: "map_option value_s (getSetting returningManager 0 ''label'') = Some (VStr ''hp'')"
    by (simp add: getSetting_def ps nameplates_def modeSetting_def)
  have gv: "map_option value_s (getSetting returningManager 1 ''volume'') = Some (VNum (Num 50))"
    by (simp add: getSetting_def ps idleAlert_def lockedEnable_def)
  note t = load_end_state [OF k db ok]
  from t have hit: "(pn, d) \<in> set ?r \<and> (k, v) \<in> set d \<and> v \<noteq> VUndefined
            \<and> findPlugin (pluginList returningManager) pn = Some i \<and> getSetting returningManager i k = Some s \<Longrightarrow>
              map_option value_s (getSetting (loadPhase noEffect returningManager) i k) = Some v
              \<and> (\<forall>f. onLoaded s = Some f \<longrightarrow>
                    EvCall f i \<in> set (drop (length (trace returningManager)) (trace (loadPhase noEffect returningManager))))"
    for pn d k v i s by blast
  from t have frame: "(\<forall>d v. (pluginName (pluginList returningManager ! j), d) \<in> set ?r \<and> (k, v) \<in> set d \<longrightarrow> v = VUndefined) \<Longrightarrow>
              map_option value_s (getSetting (loadPhase noEffect returningManager) j k)
                = map_option value_s (getSetting returningManager j k)" for j k
    by blast
  have a: "map_option value_s (getSetting (loadPhase noEffect returningManager) 0 ''mode'') = Some (VStr ''b'')
         \<and> EvCall ''modeLoaded'' 0
       \<in> set (drop (length (trace returningManager)) (trace (loadPhase noEffect returningManager)))"
    using hit [of "''Nameplates''" ?d "''mode''" "VStr ''b''" 0 ?mode] f gm by simp
  have b: "map_option value_s (getSetting (loadPhase noEffect returningManager) 0 ''size'') = Some (VNum (Num 7))"
    using hit [of "''Nameplates''" ?d "''size''" "VNum (Num 7)" 0 ?size] f gs by simp
  have c: "map_option value_s (getSetting (loadPhase noEffect returningManager) 0 ''label'') = Some (VStr ''hp'')"
    using frame [of 0 "''label''"] gl by (simp add: ps n)
  have d: "map_option value_s (getSetting (loadPhase noEffect returningManager) 1 ''volume'') = Some (VNum (Num 50))"
    using frame [of 1 "''volume''"] gv by (simp add: ps n)
  from a b c d show ?thesis by blast
qed

text \<open>
  The same holds when only the \<^verbatim>\<open>onLoaded\<close> hooks of the registered plugins are known
  to keep names, keys, values and hooks.
\<close>

lemma load_end_state_hooks:
  assumes "\<forall>f \<in> set (loadHooks (pluginList st)). \<forall>i qs. map loadView (exec f i qs) = map loadView qs"
      and "database st (username st) = Some r"
      and "objectKeys r"
  shows "(\<forall>pn d k v i s.
            (pn, d) \<in> set r \<and> (k, v) \<in> set d \<and> v \<noteq> VUndefined
            \<and> findPlugin (pluginList st) pn = Some i \<and> getSetting st i k = Some s \<longrightarrow>
              map_option value_s (getSetting (loadPhase exec st) i k) = Some v
              \<and> (\<forall>f. onLoaded s = Some f \<longrightarrow>
                    EvCall f i \<in> set (drop (length (trace st)) (trace (loadPhase exec st)))))
       \<and> (\<forall>j k. (\<forall>d v. (pluginName (pluginList st ! j), d) \<in> set r \<and> (k, v) \<in> set d \<longrightarrow> v = VUndefined) \<longrightarrow>
              map_option value_s (getSetting (loadPhase exec st) j k)
                = map_option value_s (getSetting st j k))
       \<and> ((\<forall>pn d k v. (pn, d) \<in> set r \<and> (k, v) \<in> set d \<and> v \<noteq> VUndefined \<longrightarrow>
               valueAt (pluginList st) pn k = None) \<longrightarrow>
            loadPhase exec st = st\<lparr>databaseSettings := Some r\<rparr>)"
proof -
  let ?H = "loadHooks (pluginList st)"
  have k: "keepsLoadView (onlyHooks ?H exec)"
    by (rule onlyHooks_keeps [OF assms(1)])
  have "set (loadHooks (pluginList st)) \<subseteq> set ?H"
    by simp
  from loadPhase_onlyHooks(1) [OF k this]
  have same: "loadPhase (onlyHooks ?H exec) st = loadPhase exec st" .
  from load_end_state [OF k assms(2,3)] show ?thesis
    unfolding same .
qed

section \<open>One pass of the load loop\<close>

lemma findPlugin_None: "findPlugin ps n = None \<longleftrightarrow> n \<notin> pluginName ` set ps"
  by (induction ps) auto

lemma findPlugin_first:
  "findPlugin ps n = Some i \<longleftrightarrow>
     i < length ps \<and> pluginName (ps ! i) = n \<and> (\<forall>j < i. pluginName (ps ! j) \<noteq> n)"
proof (induction ps arbitrary: i)
  case Nil
  then show ?case by simp
next
  case (Cons p ps)
  show ?case
  proof (cases "pluginName p = n")
    case True
    then show ?thesis by (cases i) auto
  next
    case False
    show ?thesis
    proof (cases i)
      case 0
      with False show ?thesis by auto
    next
      case (Suc m)
      have "(\<forall>j < Suc m. pluginName ((p # ps) ! j) \<noteq> n) \<longleftrightarrow> (\<forall>j < m. pluginName (ps ! j) \<noteq> n)"
        using False by (auto simp: less_Suc_eq_0_disj)
      with Cons.IH [of m] False Suc show ?thesis by auto
    qed
  qed
qed

lemma setSettingValue_entry:
  assumes "map_of (settings p) k = Some s"
  shows "map_of (settings (setSettingValue k v p)) = (map_of (settings p))(k \<mapsto> s\<lparr>value_s := v\<rparr>)"
    and "map fst (settings (setSettingValue k v p)) = map fst (settings p)"
    and "pluginName (setSettingValue k v p) = pluginName p"
  using assms
  by (auto simp: setSettingValue_def AList.map_of_map_entry map_fst_map_entry)

text \<open>
  C3. Let \<open>r\<close> be the user's stored record. The load phase of registerPlugins reads it and
  runs the loop body once for each stored entry, a plugin name with a setting key and a value,
  in the order of the record. A pass whose value is defined, whose plugin name finds a
  registered plugin (the first with that name) and whose key is a setting of that plugin
  assigns the stored value to that setting, keeping the plugin's name, its setting keys and
  every other setting, and then, when the setting has an \<^verbatim>\<open>onLoaded\<close> hook, calls the
  hook once with that plugin as receiver on the plugins so updated; what the hook does is
  arbitrary. A pass whose value is undefined, whose plugin name is not the name of a
  registered plugin, or whose key is not a setting of the plugin found returns the state
  unchanged.
\<close>

theorem load_overwrites_matching:
  assumes "database st (username st) = Some r"
  shows
  "registerPlugins exec st
     = registerLoop [0..<length (pluginList (loadPhase exec st))] (loadPhase exec st)
   \<and> loadPhase exec st
     = fold (\<lambda>(pn, k, v). loadSetting exec pn k v) (entries r) (st\<lparr>databaseSettings := Some r\<rparr>)
   \<and> (\<forall>pn k v. (pn, k, v) \<in> set (entries r) \<longleftrightarrow> (\<exists>d. (pn, d) \<in> set r \<and> (k, v) \<in> set d))
   \<and> (\<forall>now pn k v i s.
         v \<noteq> VUndefined
         \<and> i < length (pluginList now) \<and> pluginName (pluginList now ! i) = pn
         \<and> (\<forall>j < i. pluginName (pluginList now ! j) \<noteq> pn)
         \<and> map_of (settings (pluginList now ! i)) k = Some s \<longrightarrow>
           (let loaded = (pluginList now)[i := setSettingValue k v (pluginList now ! i)]
            in map_of (settings (loaded ! i))
                 = (map_of (settings (pluginList now ! i)))(k \<mapsto> s\<lparr>value_s := v\<rparr>)
             \<and> map fst (settings (loaded ! i)) = map fst (settings (pluginList now ! i))
             \<and> pluginName (loaded ! i) = pn
             \<and> loadSetting exec pn k v now =
                 (case onLoaded s of
                    None \<Rightarrow> now\<lparr>pluginList := loaded\<rparr>
                  | Some f \<Rightarrow> now\<lparr>pluginList := exec f i loaded,
                                  trace := trace now @ [EvCall f i]\<rparr>)))
   \<and> (\<forall>now pn k v.
         v = VUndefined
         \<or> pn \<notin> pluginName ` set (pluginList now)
         \<or> (\<exists>i < length (pluginList now). pluginName (pluginList now ! i) = pn
               \<and> (\<forall>j < i. pluginName (pluginList now ! j) \<noteq> pn)
               \<and> map_of (settings (pluginList now ! i)) k = None) \<longrightarrow>
           loadSetting exec pn k v now = now)"
proof -
  have reg: "registerPlugins exec st
     = registerLoop [0..<length (pluginList (loadPhase exec st))] (loadPhase exec st)"
    by (simp add: registerPlugins_def Let_def)
  have whole: "loadPhase exec st
     = fold (\<lambda>(pn, k, v). loadSetting exec pn k v) (entries r) (st\<lparr>databaseSettings := Some r\<rparr>)"
    using assms by (simp add: loadPhase_def Let_def loadRecord_fold)
  have mem: "\<forall>pn k v. (pn, k, v) \<in> set (entries r) \<longleftrightarrow> (\<exists>d. (pn, d) \<in> set r \<and> (k, v) \<in> set d)"
    by (simp add: entries_mem)
  have hit: "(let loaded = (pluginList now)[i := setSettingValue k v (pluginList now ! i)]
            in map_of (settings (loaded ! i))
                 = (map_of (settings (pluginList now ! i)))(k \<mapsto> s\<lparr>value_s := v\<rparr>)
             \<and> map fst (settings (loaded ! i)) = map fst (settings (pluginList now ! i))
             \<and> pluginName (loaded ! i) = pn
             \<and> loadSetting exec pn k v now =
                 (case onLoaded s of
                    None \<Rightarrow> now\<lparr>pluginList := loaded\<rparr>
                  | Some f \<Rightarrow> now\<lparr>pluginList := exec f i loaded,
                                  trace := trace now @ [EvCall f i]\<rparr>))"
    if "v \<noteq> VUndefined" "i < length (pluginList now)" "pluginName (pluginList now ! i) = pn"
      "\<forall>j < i. pluginName (pluginList now ! j) \<noteq> pn"
      "map_of (settings (pluginList now ! i)) k = Some s" for now pn k v i s
  proof -
    have f: "findPlugin (pluginList now) pn = Some i"
      using that(2,3,4) by (simp add: findPlugin_first)
    have l: "loadSetting exec pn k v now =
                 (case onLoaded s of
                    None \<Rightarrow> now\<lparr>pluginList := (pluginList now)[i := setSettingValue k v (pluginList now ! i)]\<rparr>
                  | Some f \<Rightarrow> now\<lparr>pluginList := exec f i ((pluginList now)[i := setSettingValue k v (pluginList now ! i)]),
                                  trace := trace now @ [EvCall f i]\<rparr>)"
      using that(1,5) f by (simp add: loadSetting_def Let_def setValue_def callFn_def split: option.splits)
    show ?thesis
      using that(2,3) setSettingValue_entry [OF that(5), of v] l
      by (simp add: Let_def)
  qed
  have skip: "loadSetting exec pn k v now = now"
    if "v = VUndefined
         \<or> pn \<notin> pluginName ` set (pluginList now)
         \<or> (\<exists>i < length (pluginList now). pluginName (pluginList now ! i) = pn
               \<and> (\<forall>j < i. pluginName (pluginList now ! j) \<noteq> pn)
               \<and> map_of (settings (pluginList now ! i)) k = None)" for now pn k v
  proof -
    from that show ?thesis
    proof (elim disjE exE conjE)
      assume "v = VUndefined"
      then show ?thesis by (simp add: loadSetting_def)
    next
      assume "pn \<notin> pluginName ` set (pluginList now)"
      then have "findPlugin (pluginList now) pn = None"
        by (rule findPlugin_None [THEN iffD2])
      then show ?thesis by (simp add: loadSetting_def)
    next
      fix i
      assume "i < length (pluginList now)" "pluginName (pluginList now ! i) = pn"
        "\<forall>j < i. pluginName (pluginList now ! j) \<noteq> pn"
        and none: "map_of (settings (pluginList now ! i)) k = None"
      then have "findPlugin (pluginList now) pn = Some i"
        by (intro findPlugin_first [THEN iffD2] conjI)
      with none show ?thesis by (simp add: loadSetting_def)
    qed
  qed
  have hit': "\<forall>now pn k v i s.
         v \<noteq> VUndefined
         \<and> i < length (pluginList now) \<and> pluginName (pluginList now ! i) = pn
         \<and> (\<forall>j < i. pluginName (pluginList now ! j) \<noteq> pn)
         \<and> map_of (settings (pluginList now ! i)) k = Some s \<longrightarrow>
           (let loaded = (pluginList now)[i := setSettingValue k v (pluginList now ! i)]
            in map_of (settings (loaded ! i))
                 = (map_of (settings (pluginList now ! i)))(k \<mapsto> s\<lparr>value_s := v\<rparr>)
             \<and> map fst (settings (loaded ! i)) = map fst (settings (pluginList now ! i))
             \<and> pluginName (loaded ! i) = pn
             \<and> loadSetting exec pn k v now =
                 (case onLoaded s of
                    None \<Rightarrow> now\<lparr>pluginList := loaded\<rparr>
                  | Some f \<Rightarrow> now\<lparr>pluginList := exec f i loaded,
                                  trace := trace now @ [EvCall f i]\<rparr>))"
    by (intro allI impI, elim conjE, rule hit)
  have skip': "\<forall>now pn k v.
         v = VUndefined
         \<or> pn \<notin> pluginName ` set (pluginList now)
         \<or> (\<exists>i < length (pluginList now). pluginName (pluginList now ! i) = pn
               \<and> (\<forall>j < i. pluginName (pluginList now ! j) \<noteq> pn)
               \<and> map_of (settings (pluginList now ! i)) k = None) \<longrightarrow>
           loadSetting exec pn k v now = now"
    by (intro allI impI, rule skip)
  show ?thesis
    by (intro conjI reg whole mem hit' skip')
qed

theorem load_overwrites_matching_witness:
  "loadPhase countingExec countingManager
     = countingManager\<lparr>
         databaseSettings := Some [(''Counter'', [(''count'', VNum (Num 1)), (''gone'', VBool True)]),
                                   (''Removed'', [(''enable'', VBool False)])],
         pluginList := countingExec ''counted'' 0 [setSettingValue ''count'' (VNum (Num 1)) counter],
         trace := [EvCall ''counted'' 0]\<rparr>
   \<and> map_option value_s (map_of (settings (setSettingValue ''count'' (VNum (Num 1)) counter)) ''count'')
       = Some (VNum (Num 1))
   \<and> map_option value_s (getSetting countingManager 0 ''count'') = Some (VNum (Num 0))
   \<and> map_option value_s (getSetting (loadPhase countingExec countingManager) 0 ''count'')
       = Some (VNum (Num 2))
   \<and> map fst (settings (pluginList (loadPhase countingExec countingManager) ! 0)) = [''enable'', ''count'']"
proof -
  let ?r = "[(''Counter'', [(''count'', VNum (Num 1)), (''gone'', VBool True)]),
             (''Removed'', [(''enable'', VBool False)])]"
  let ?s = "noopSetting\<lparr>text_s := ''Count'', type_s := Range, value_s := VNum (Num 0),
            onLoaded := Some ''counted''\<rparr>"
  let ?st0 = "countingManager\<lparr>databaseSettings := Some ?r\<rparr>"
  let ?loaded = "[setSettingValue ''count'' (VNum (Num 1)) counter]"
  let ?st1 = "?st0\<lparr>pluginList := countingExec ''counted'' 0 ?loaded,
                     trace := trace ?st0 @ [EvCall ''counted'' 0]\<rparr>"
  have db: "database countingManager (username countingManager) = Some ?r"
    by (simp add: countingManager_def freshManager_def)
  note t = load_overwrites_matching [OF db, of countingExec]
  from t have whole: "loadPhase countingExec countingManager
     = fold (\<lambda>(pn, k, v). loadSetting countingExec pn k v) (entries ?r) ?st0"
    by (elim conjE)
  from t have hit: "v \<noteq> VUndefined
         \<and> i < length (pluginList now) \<and> pluginName (pluginList now ! i) = pn
         \<and> (\<forall>j < i. pluginName (pluginList now ! j) \<noteq> pn)
         \<and> map_of (settings (pluginList now ! i)) k = Some s \<longrightarrow>
           (let loaded = (pluginList now)[i := setSettingValue k v (pluginList now ! i)]
            in map_of (settings (loaded ! i))
                 = (map_of (settings (pluginList now ! i)))(k \<mapsto> s\<lparr>value_s := v\<rparr>)
             \<and> map fst (settings (loaded ! i)) = map fst (settings (pluginList now ! i))
             \<and> pluginName (loaded ! i) = pn
             \<and> loadSetting countingExec pn k v now =
                 (case onLoaded s of
                    None \<Rightarrow> now\<lparr>pluginList := loaded\<rparr>
                  | Some f \<Rightarrow> now\<lparr>pluginList := countingExec f i loaded,
                                  trace := trace now @ [EvCall f i]\<rparr>))" for now pn k v i s
    by (elim conjE allE)
  from t have skip: "v = VUndefined
         \<or> pn \<notin> pluginName ` set (pluginList now)
         \<or> (\<exists>i < length (pluginList now). pluginName (pluginList now ! i) = pn
               \<and> (\<forall>j < i. pluginName (pluginList now ! j) \<noteq> pn)
               \<and> map_of (settings (pluginList now ! i)) k = None) \<longrightarrow>
           loadSetting countingExec pn k v now = now" for now pn k v
    by (elim conjE allE)
  have ps0: "pluginList ?st0 = [counter]" "trace ?st0 = []"
    by (simp_all add: countingManager_def freshManager_def)
  have c: "pluginName counter = ''Counter''" "map_of (settings counter) ''count'' = Some ?s"
    "map fst (settings counter) = [''enable'', ''count'']"
    by (simp_all add: counter_def)
  have e: "entries ?r = [(''Counter'', ''count'', VNum (Num 1)), (''Counter'', ''gone'', VBool True),
                         (''Removed'', ''enable'', VBool False)]"
    by (simp add: entries_def)
  have s1: "loadSetting countingExec ''Counter'' ''count'' (VNum (Num 1)) ?st0 = ?st1"
    and v1: "map_of (settings (setSettingValue ''count'' (VNum (Num 1)) counter))
              = (map_of (settings counter))(''count'' \<mapsto> ?s\<lparr>value_s := VNum (Num 1)\<rparr>)"
    using hit [of "VNum (Num 1)" 0 ?st0 "''Counter''" "''count''" ?s]
    by (simp_all add: ps0 c Let_def)
  have b: "bump (setSettingValue ''count'' (VNum (Num 1)) counter)
             = setSettingValue ''count'' (VNum (Num 2)) counter"
    by (simp add: bump_def v1 setSettingValue_twice)
  have ps1: "countingExec ''counted'' 0 ?loaded = [setSettingValue ''count'' (VNum (Num 2)) counter]"
    by (simp add: countingExec_def b)
  have v2: "map_of (settings (setSettingValue ''count'' (VNum (Num 2)) counter))
              = (map_of (settings counter))(''count'' \<mapsto> ?s\<lparr>value_s := VNum (Num 2)\<rparr>)"
    and k2: "map fst (settings (setSettingValue ''count'' (VNum (Num 2)) counter)) = [''enable'', ''count'']"
    and n2: "pluginName (setSettingValue ''count'' (VNum (Num 2)) counter) = ''Counter''"
    using setSettingValue_entry [OF c(2), of "VNum (Num 2)"] by (simp_all add: c)
  have gone: "map_of (settings counter) ''gone'' = None"
    by (simp add: counter_def)
  have s2: "loadSetting countingExec ''Counter'' ''gone'' (VBool True) ?st1 = ?st1"
    using skip [of "VBool True" "''Counter''" ?st1 "''gone''"]
    by (simp add: ps1 v2 n2 gone)
  have s3: "loadSetting countingExec ''Removed'' ''enable'' (VBool False) ?st1 = ?st1"
    using skip [of "VBool False" "''Removed''" ?st1 "''enable''"]
    by (simp add: ps1 n2)
  have lp: "loadPhase countingExec countingManager = ?st1"
    unfolding whole e by (simp only: fold_simps prod.case s1 s2 s3 id_apply comp_apply)
  have a1: "loadPhase countingExec countingManager
     = countingManager\<lparr>databaseSettings := Some ?r,
         pluginList := countingExec ''counted'' 0 ?loaded,
         trace := [EvCall ''counted'' 0]\<rparr>"
    unfolding lp by (simp add: ps0)
  have a2: "map_option value_s (map_of (settings (setSettingValue ''count'' (VNum (Num 1)) counter)) ''count'')
       = Some (VNum (Num 1))"
    by (simp add: v1)
  have a3: "map_option value_s (getSetting countingManager 0 ''count'') = Some (VNum (Num 0))"
    by (simp add: getSetting_def countingManager_def freshManager_def c)
  have a4: "map_option value_s (getSetting (loadPhase countingExec countingManager) 0 ''count'')
       = Some (VNum (Num 2))"
    unfolding lp by (simp add: getSetting_def ps1 v2)
  have a5: "map fst (settings (pluginList (loadPhase countingExec countingManager) ! 0)) = [''enable'', ''count'']"
    unfolding lp by (simp add: ps1 k2)
  show ?thesis
    by (intro conjI a1 a2 a3 a4 a5)
qed

end
